theory Spec2Isabelle
  imports Main
begin

text \<open>
  A model of the tool-use orchestration of \<^verbatim>\<open>anthropic-sdk-tools\<close>: the streamed client
  of \<^verbatim>\<open>src/src/v2.ts\<close> (\<^verbatim>\<open>AnthropicClientV2.stream\<close> and its helpers) and the buffered
  client of \<^verbatim>\<open>src/src/index.ts\<close> (\<^verbatim>\<open>runWithTools\<close> and the older \<^verbatim>\<open>invoke\<close>).

  The libraries that the clients call are parameters of the model: the provider
  client, the XML parser, the JSON functions and the schemas of the tools. The
  provider and the tools may answer differently each time, so they take the time: the
  number of requests and tool calls made before. A run is the list of what it did, in
  order (requests, tool calls, events handed to the consumer, the abort of the
  provider's stream), with the error it threw or the value it returned. Provider
  errors and cancellation by the consumer are not modelled.
\<close>

section \<open>Text helpers\<close>

text \<open>
  JavaScript strings are modelled as \<^typ>\<open>string\<close>. The two markers of the
  invocation block are the literals of \<^verbatim>\<open>src/src/v2.ts\<close> and
  \<^verbatim>\<open>src/src/index.ts\<close>.
\<close>

definition start_marker :: string where
  "start_marker = ''<function_calls>''"

definition end_marker :: string where
  "end_marker = ''</function_calls>''"

definition startsWith :: "string \<Rightarrow> string \<Rightarrow> bool" where
  "startsWith s p = (take (length p) s = p)"

text \<open>\<^verbatim>\<open>text.includes(p)\<close>: \<open>p\<close> occurs somewhere in \<open>text\<close>.\<close>

fun includes_str :: "string \<Rightarrow> string \<Rightarrow> bool" where
  "includes_str [] p = (p = [])"
| "includes_str (c # cs) p = (startsWith (c # cs) p \<or> includes_str cs p)"

text \<open>The text that follows the first occurrence of \<open>p\<close>, if there is one.\<close>

fun after_first :: "string \<Rightarrow> string \<Rightarrow> string option" where
  "after_first [] p = (if p = [] then Some [] else None)"
| "after_first (c # cs) p =
     (if startsWith (c # cs) p then Some (drop (length p) (c # cs)) else after_first cs p)"

text \<open>The text that precedes the first occurrence of \<open>p\<close> (all of it when there is none).\<close>

fun before_first :: "string \<Rightarrow> string \<Rightarrow> string" where
  "before_first [] p = []"
| "before_first (c # cs) p = (if startsWith (c # cs) p then [] else c # before_first cs p)"

text \<open>
  \<^verbatim>\<open>text.split(p)[1]\<close> for a non-empty separator: the piece between the first and the
  second occurrence of \<open>p\<close>; \<open>None\<close> is JavaScript's \<^verbatim>\<open>undefined\<close> (no occurrence).
\<close>

definition split_second :: "string \<Rightarrow> string \<Rightarrow> string option" where
  "split_second text p = map_option (\<lambda>rest. before_first rest p) (after_first text p)"

text \<open>A value interpolated into a template literal: \<^verbatim>\<open>undefined\<close> prints as such.\<close>

definition template :: "string option \<Rightarrow> string" where
  "template v = (case v of None \<Rightarrow> ''undefined'' | Some s \<Rightarrow> s)"

text \<open>\<^verbatim>\<open>v || ''\<close> on an optional string.\<close>

definition or_empty :: "string option \<Rightarrow> string" where
  "or_empty v = (case v of None \<Rightarrow> [] | Some s \<Rightarrow> s)"

section \<open>JavaScript values and errors\<close>

text \<open>
  The values that the XML parser, the JSON parser and the tool functions hand to the
  engine. Numbers are integers here; no claim depends on fractions.
\<close>

datatype jsval =
    JUndefined
  | JNull
  | JBool bool
  | JNum int
  | JStr string
  | JArr "jsval list"
  | JObj "(string \<times> jsval) list"

text \<open>
  Everything the engine can throw: reading a property of \<^verbatim>\<open>undefined\<close> or
  \<^verbatim>\<open>null\<close>, the \<^verbatim>\<open>Tool ... not found\<close> error (with the interpolated value), the
  guard of a consumed stream, and a failure raised by the XML parser.
\<close>

datatype error =
    TypeError
  | ToolNotFound jsval
  | StreamConsumed
  | InvocationParseError

definition ebind :: "error + 'a \<Rightarrow> ('a \<Rightarrow> error + 'b) \<Rightarrow> error + 'b" where
  "ebind m f = (case m of Inl e \<Rightarrow> Inl e | Inr v \<Rightarrow> f v)"

text \<open>
  Property read \<^verbatim>\<open>v.k\<close> for the keys the engine reads (\<^verbatim>\<open>function_calls\<close>,
  \<^verbatim>\<open>invoke\<close>, \<^verbatim>\<open>tool_name\<close>, \<^verbatim>\<open>context\<close>, \<^verbatim>\<open>parameters\<close>): it throws on
  \<^verbatim>\<open>undefined\<close> and \<^verbatim>\<open>null\<close>, looks the key up in an object, and is
  \<^verbatim>\<open>undefined\<close> on arrays and primitives, which have none of these keys.
\<close>

fun get_prop :: "jsval \<Rightarrow> string \<Rightarrow> error + jsval" where
  "get_prop JUndefined k = Inl TypeError"
| "get_prop JNull k = Inl TypeError"
| "get_prop (JObj kvs) k = Inr (case map_of kvs k of None \<Rightarrow> JUndefined | Some v \<Rightarrow> v)"
| "get_prop v k = Inr JUndefined"

text \<open>Truthiness, as \<^verbatim>\<open>if (result.error)\<close> tests it.\<close>

fun truthy :: "jsval \<Rightarrow> bool" where
  "truthy JUndefined = False"
| "truthy JNull = False"
| "truthy (JBool b) = b"
| "truthy (JNum n) = (n \<noteq> 0)"
| "truthy (JStr s) = (s \<noteq> [])"
| "truthy v = True"

text \<open>\<^verbatim>\<open>xs.map(f)\<close> where \<open>f\<close> may throw: the first throw ends the map.\<close>

fun map_err :: "('a \<Rightarrow> error + 'b) \<Rightarrow> 'a list \<Rightarrow> error + 'b list" where
  "map_err f [] = Inr []"
| "map_err f (x # xs) =
     (case f x of
        Inl e \<Rightarrow> Inl e
      | Inr y \<Rightarrow> (case map_err f xs of Inl e \<Rightarrow> Inl e | Inr ys \<Rightarrow> Inr (y # ys)))"

section \<open>Tools and the world outside the engine\<close>

text \<open>
  One parameter of a tool as the buffered prompt renders it: the strings that
  \<^verbatim>\<open>${parameterData.type}\<close> and \<^verbatim>\<open>${parameterData.description}\<close> print (\<open>None\<close>
  when the property is \<^verbatim>\<open>undefined\<close>), the text that the XML builder returns for
  \<^verbatim>\<open>items.properties\<close> when the type is \<^verbatim>\<open>array\<close> and \<^verbatim>\<open>items\<close> is set, and
  the text it returns for \<^verbatim>\<open>properties\<close> when that is set. The schema translator and
  the XML builder are libraries outside this repository.
\<close>

record param_data =
  p_type :: "string option"
  p_description :: "string option"
  p_items :: "string option"
  p_properties :: "string option"

text \<open>
  \<^verbatim>\<open>ToolDefinition\<close>. \<open>parameters\<close> is the schema's \<^verbatim>\<open>safeParse\<close> (\<open>Inl\<close> the
  validation error, \<open>Inr\<close> the parsed data); \<open>schema_props\<close> and \<open>schema_json\<close> are
  what the schema translator returns for it (its \<^verbatim>\<open>properties\<close> in order, and its
  JSON text); \<open>func\<close> is the tool's asynchronous function: \<open>Inl\<close> a rejection with the
  thrown value, \<open>Inr\<close> the resolved value. A tool may answer differently each time it
  is called, so \<open>func\<close> also takes the number of requests and tool calls made before.
\<close>

record tool =
  tool_name :: string
  description :: string
  parameters :: "jsval \<Rightarrow> jsval + jsval"
  schema_props :: "(string \<times> param_data) list"
  schema_json :: string
  func :: "nat \<Rightarrow> jsval \<Rightarrow> jsval + jsval"

text \<open>\<^verbatim>\<open>tools.find(tool => tool.anthropic.tool_name === name)\<close>, strict equality.\<close>

definition find_tool :: "tool list \<Rightarrow> jsval \<Rightarrow> tool option" where
  "find_tool tools name = find (\<lambda>tool. JStr (tool_name tool) = name) tools"

datatype role = User | Assistant

datatype block = TextBlock string | ImageBlock

datatype msg_content = Str string | Blocks "block list" | Raw jsval

record message =
  role :: role
  content :: msg_content

text \<open>The fields of \<^verbatim>\<open>MessageCreateParams\<close> that the engine reads or writes.\<close>

record request =
  model :: string
  system :: string
  messages :: "message list"
  stop_sequences :: "string list option"
  max_tokens :: nat
  streaming :: bool

text \<open>The events of the provider's stream.\<close>

datatype chunk =
    MessageStart
  | MessageDelta
  | MessageStop
  | ContentBlockStart nat string
  | ContentBlockDelta nat string
  | ContentBlockStop nat

text \<open>
  The collaborators: the XML parser (\<open>None\<close> when it throws), the extraction
  \<^verbatim>\<open>JSON.parse(finalText.replace(/<parameters>(.*)<\/parameters>/, '$1'))\<close> of the
  parameter resolver (\<open>Inl\<close> the thrown value), \<^verbatim>\<open>JSON.stringify(v)\<close> and \<open>v\<close>
  itself as interpolated into a template literal, and the provider client in its two
  modes. Like \<open>func\<close>, the
  provider takes the number of requests and tool calls made before.
\<close>

record env =
  xml_parse :: "string \<Rightarrow> jsval option"
  json_parse :: "string \<Rightarrow> jsval + jsval"
  json_stringify :: "jsval \<Rightarrow> string"
  to_string :: "jsval \<Rightarrow> string"
  create :: "nat \<Rightarrow> request \<Rightarrow> block list"
  create_stream :: "nat \<Rightarrow> request \<Rightarrow> chunk list"

section \<open>Invocation block parser (streamed mode)\<close>

text \<open>The record \<^verbatim>\<open>{tool_name, context}\<close> of \<^verbatim>\<open>extractFunctionCalls\<close>.\<close>

record invocation =
  fc_tool_name :: jsval
  fc_context :: jsval

text \<open>\<^verbatim>\<open>{tool_name: call.invoke.tool_name, context: call.invoke.context}\<close>\<close>

definition call_record :: "jsval \<Rightarrow> error + invocation" where
  "call_record call =
     ebind (get_prop call ''invoke'') (\<lambda>i.
     ebind (get_prop i ''tool_name'') (\<lambda>n.
     ebind (get_prop i ''context'') (\<lambda>c.
       Inr \<lparr>fc_tool_name = n, fc_context = c\<rparr>)))"

text \<open>
  The last statement of \<^verbatim>\<open>extractFunctionCalls\<close>:
  \<^verbatim>\<open>Array.isArray(calls) ? calls.map(...) : [{...}]\<close>.
\<close>

definition calls_to_records :: "jsval \<Rightarrow> error + invocation list" where
  "calls_to_records calls =
     (case calls of
        JArr cs \<Rightarrow> map_err call_record cs
      | _ \<Rightarrow> ebind (call_record calls) (\<lambda>r. Inr [r]))"

text \<open>The text handed to the XML parser: the segment between fresh markers.\<close>

definition wrap_block :: "string \<Rightarrow> string" where
  "wrap_block text =
     start_marker @ ''\<newline>'' @ template (split_second text start_marker) @ ''\<newline>'' @ end_marker"

definition extractFunctionCalls :: "env \<Rightarrow> string \<Rightarrow> error + invocation list" where
  "extractFunctionCalls E text =
     (if \<not> includes_str text start_marker then Inr []
      else case xml_parse E (wrap_block text) of
             None \<Rightarrow> Inl InvocationParseError
           | Some parsed \<Rightarrow> ebind (get_prop parsed ''function_calls'') calls_to_records)"

section \<open>Tool catalog prompt (streamed mode)\<close>

definition text_lines :: "string list \<Rightarrow> string" where
  "text_lines ls = concat (map (\<lambda>l. l @ ''\<newline>'') ls)"

text \<open>The framing that \<^verbatim>\<open>buildSystemMessage\<close> writes before the tool descriptions.\<close>

definition preamble_v2 :: string where
  "preamble_v2 = text_lines
     [''In this environment you have access to a set of tools you can use to answer the user's questions.'',
      ''You will be given the name and description of each tool, and you just need to call the tool by name. Another model will handle calling the tool with the correct parameters. You MUST NOT write any parameters yourself.'',
      [],
      ''You may call one or more tools like this, the tools will be called in the order they are listed, but the result of each tool will NOT be passed to the next tool:'',
      ''<function_calls>'',
      ''<invoke>'',
      ''<tool_name>$TOOL_NAME</tool_name>'',
      ''<context>$ALL_NECESSARY_CONTEXT_TO_SEND_TO_THE_OTHER_MODEL</context>'',
      ''</invoke>'',
      ''<invoke>'',
      ''<tool_name>$TOOL_NAME</tool_name>'',
      ''<context>$ALL_NECESSARY_CONTEXT_TO_SEND_TO_THE_OTHER_MODEL</context>'',
      ''</invoke>'',
      ''...'',
      ''</function_calls>'',
      [],
      ''Here are the tools available:'',
      ''<tools>'']"

definition tool_description_v2 :: "tool \<Rightarrow> string" where
  "tool_description_v2 t = text_lines
     [''<tool_description>'',
      ''<name>'' @ tool_name t @ ''</name>'',
      ''<description>'' @ description t @ ''</description>'',
      ''</tool_description>'']"

definition buildSystemMessage :: "tool list \<Rightarrow> string option \<Rightarrow> string" where
  "buildSystemMessage tools systemMessage =
     (if tools \<noteq> []
      then preamble_v2 @ concat (map tool_description_v2 tools) @ text_lines [''</tools>'']
      else []) @ or_empty systemMessage"

section \<open>Streaming orchestrator\<close>

text \<open>The request body of \<^verbatim>\<open>stream\<close> and \<^verbatim>\<open>runWithTools\<close>.\<close>

record body =
  b_model :: string
  b_system :: "string option"
  b_messages :: "message list"
  b_stop_sequences :: "string list option"
  b_max_tokens :: nat
  b_tools :: "tool list option"
  b_tools_model :: "string option"

text \<open>\<^verbatim>\<open>AnthropicStreamEvent\<close>: the provider's events and the engine's own.\<close>

datatype event =
    Provider chunk
  | ToolInvoke tool
  | ToolResult tool jsval
  | ToolError tool jsval
  | ToolResults "string \<rightharpoonup> tool" "string \<rightharpoonup> jsval" "message list"

text \<open>
  What a run does, in order: a request to the provider, a call of a tool's function
  (with its name and argument), an event handed to the consumer of the stream, and the
  abort of the provider's stream.
\<close>

datatype action =
    Request request
  | CallTool string jsval
  | Emit event
  | Abort

text \<open>
  An asynchronous generator, run to its end, is the list of what it does and what it
  yields, in order, with the error it throws at the end, if any. A consumer that
  leaves its loop early closes the generator at that yield, so it keeps a prefix.
\<close>

datatype 'y step = Act action | Yield 'y

text \<open>Sparse arrays of text blocks: \<open>None\<close> is a hole.\<close>

definition set_idx :: "string option list \<Rightarrow> nat \<Rightarrow> string \<Rightarrow> string option list" where
  "set_idx xs i v =
     (if i < length xs then xs[i := Some v]
      else xs @ replicate (i - length xs) None @ [Some v])"

definition get_idx :: "string option list \<Rightarrow> nat \<Rightarrow> string option" where
  "get_idx xs i = (if i < length xs then xs ! i else None)"

text \<open>
  The bookkeeping of \<^verbatim>\<open>processChunk\<close> on the shared array (the assignment
  \<^verbatim>\<open>content = []\<close> at \<^verbatim>\<open>message_start\<close> rebinds the parameter only). A delta for a
  block that never started reads \<^verbatim>\<open>.text\<close> of \<^verbatim>\<open>undefined\<close>. The switch of
  \<^verbatim>\<open>invokeFunction\<close> over the secondary stream is the same.
\<close>

fun processChunk :: "chunk \<Rightarrow> string option list \<Rightarrow> error + string option list" where
  "processChunk (ContentBlockStart i t) c = Inr (set_idx c i t)"
| "processChunk (ContentBlockDelta i t) c =
     (case get_idx c i of None \<Rightarrow> Inl TypeError | Some s \<Rightarrow> Inr (set_idx c i (s @ t)))"
| "processChunk ch c = Inr c"

text \<open>
  \<^verbatim>\<open>for await (const chunk of stream) yield* processChunk(chunk, content)\<close>: the chunks
  re-emitted, the error that ended the loop, and the array afterwards.
\<close>

fun process_stream ::
  "chunk list \<Rightarrow> string option list \<Rightarrow> chunk list \<times> error option \<times> string option list" where
  "process_stream [] c = ([], None, c)"
| "process_stream (ch # chs) c =
     (case processChunk ch c of
        Inl e \<Rightarrow> ([], Some e, c)
      | Inr c' \<Rightarrow> (case process_stream chs c' of (evs, r, c'') \<Rightarrow> (ch # evs, r, c'')))"

subsection \<open>Parameter resolver and tool executor\<close>

text \<open>What \<^verbatim>\<open>invokeFunction\<close> yields: \<^verbatim>\<open>{}\<close>, \<^verbatim>\<open>{error}\<close> or \<^verbatim>\<open>{data}\<close>.\<close>

record yobj =
  y_data :: jsval
  y_error :: jsval

definition empty_obj :: yobj where
  "empty_obj = \<lparr>y_data = JUndefined, y_error = JUndefined\<rparr>"

definition resolver_system :: "tool \<Rightarrow> string" where
  "resolver_system t =
     text_lines
       [''You are a tool caller. A model before you has chosen to call a tool. You will be given the name and description of the tool, along with the user's conversation. You will return JSON parameters to call the tool with. You are allowed to interpret what the user's intent is, and write the parameters accordingly. If you cannot interpret the user's intent, you will simply return <error>{{ASK FOR MORE INFORMATION}}</error>. The messages you see below are the messages between the previous model and the user.'',
        ''The name of the tool you MUST call is '' @ tool_name t @ '', and the description is '' @ description t @ ''. You must ALWAYS return JSON. Wrap the JSON in <parameters> and </parameters>. The JSON MUST be valid JSON. Do not return anything else.'',
        ''You will return the parameters in JSON format following this JSON schema accurately. You must NOT return a JSON schema, but a valid JSON object that follows this schema:'']
     @ schema_json t"

definition content_of_js :: "jsval \<Rightarrow> msg_content" where
  "content_of_js v = (case v of JStr s \<Rightarrow> Str s | _ \<Rightarrow> Raw v)"

definition resolver_request :: "tool \<Rightarrow> string \<Rightarrow> jsval \<Rightarrow> request" where
  "resolver_request t tools_model ctx =
     \<lparr>model = tools_model, system = resolver_system t,
      messages = [\<lparr>role = User, content = content_of_js ctx\<rparr>],
      stop_sequences = Some [''</parameters>''], max_tokens = 4000, streaming = True\<rparr>"

text \<open>
  The loop of \<^verbatim>\<open>invokeFunction\<close> over the secondary stream: one \<^verbatim>\<open>{}\<close> is yielded
  for each chunk, before the chunk is looked at.
\<close>

fun resolve_chunks ::
  "chunk list \<Rightarrow> string option list \<Rightarrow> yobj list \<times> (error + string option list)" where
  "resolve_chunks [] c = ([], Inr c)"
| "resolve_chunks (ch # chs) c =
     (case processChunk ch c of
        Inl e \<Rightarrow> ([empty_obj], Inl e)
      | Inr c' \<Rightarrow> (case resolve_chunks chs c' of (ys, r) \<Rightarrow> (empty_obj # ys, r)))"

text \<open>\<^verbatim>\<open>jsonParametersContent.map(c => c.text).join('')\<close>\<close>

definition join_text :: "string option list \<Rightarrow> string" where
  "join_text c = concat (map or_empty c)"

text \<open>
  \<^verbatim>\<open>invokeFunction\<close>, run to its end at time \<open>n\<close>: its steps, the error it throws, and
  the time afterwards.
\<close>

definition invokeFunction ::
  "env \<Rightarrow> tool \<Rightarrow> string \<Rightarrow> jsval \<Rightarrow> nat \<Rightarrow> yobj step list \<times> error option \<times> nat" where
  "invokeFunction E t tools_model ctx n =
     (let req = resolver_request t tools_model ctx;
          (ys, r) = resolve_chunks (create_stream E n req) [];
          pre = Act (Request req) # map Yield ys
      in case r of
           Inl e \<Rightarrow> (pre, Some e, Suc n)
         | Inr c \<Rightarrow>
            (case json_parse E (join_text c) of
               Inl e \<Rightarrow> (pre @ [Yield \<lparr>y_data = JUndefined, y_error = e\<rparr>], None, Suc n)
             | Inr jsonParameters \<Rightarrow>
                (case parameters t jsonParameters of
                   Inl e \<Rightarrow> (pre @ [Yield \<lparr>y_data = JUndefined, y_error = e\<rparr>], None, Suc n)
                 | Inr d \<Rightarrow>
                    (case func t (Suc n) d of
                       Inl e \<Rightarrow>
                         (pre @ [Act (CallTool (tool_name t) d),
                                 Yield \<lparr>y_data = JUndefined, y_error = e\<rparr>], None, Suc (Suc n))
                     | Inr v \<Rightarrow>
                         (pre @ [Act (CallTool (tool_name t) d),
                                 Yield \<lparr>y_data = v, y_error = JUndefined\<rparr>], None, Suc (Suc n))))))"

subsection \<open>The round: \<^verbatim>\<open>invokeFunctions\<close>\<close>

definition results_open :: string where
  "results_open = text_lines [''<function_results>'']"

definition error_block_v2 :: "env \<Rightarrow> jsval \<Rightarrow> string" where
  "error_block_v2 E e =
     text_lines [''<function_results>'', ''<error>'', json_stringify E e, ''</error>'']"

definition result_fragment :: "env \<Rightarrow> string \<Rightarrow> jsval \<Rightarrow> string" where
  "result_fragment E name v =
     text_lines [''<function_result>'', ''<tool_name>'' @ name @ ''</tool_name>'',
                 ''<result>'' @ json_stringify E v @ ''</result>'', ''</function_result>'']"

text \<open>
  The inner loop of \<^verbatim>\<open>invokeFunctions\<close> over what \<^verbatim>\<open>invokeFunction\<close> yields, with
  the results map and the accumulator: an error is announced, then the accumulator is
  reset and this inner loop is left; a defined value is appended, recorded and
  announced; anything else is passed over.
\<close>

fun consume_results ::
  "env \<Rightarrow> tool \<Rightarrow> yobj step list \<Rightarrow> (string \<rightharpoonup> jsval) \<Rightarrow> string \<Rightarrow>
     event step list \<times> (string \<rightharpoonup> jsval) \<times> string" where
  "consume_results E t [] results fr = ([], results, fr)"
| "consume_results E t (Act a # ss) results fr =
     (case consume_results E t ss results fr of (evs, r') \<Rightarrow> (Act a # evs, r'))"
| "consume_results E t (Yield y # ss) results fr =
     (if truthy (y_error y)
      then ([Yield (ToolError t (y_error y))], results, error_block_v2 E (y_error y))
      else if y_data y \<noteq> JUndefined
      then (case consume_results E t ss
                   (results(tool_name t \<mapsto> y_data y))
                   (fr @ result_fragment E (tool_name t) (y_data y)) of
              (evs, r') \<Rightarrow> (Yield (ToolResult t (y_data y)) # evs, r'))
      else consume_results E t ss results fr)"

text \<open>\<^verbatim>\<open>{tool_name: ..., context: ...}\<close>, the value that \<^verbatim>\<open>${func}\<close> interpolates.\<close>

definition invocation_obj :: "invocation \<Rightarrow> jsval" where
  "invocation_obj f = JObj [(''tool_name'', fc_tool_name f), (''context'', fc_context f)]"

text \<open>The outer loop \<^verbatim>\<open>for (const func of functionCallsArray)\<close>.\<close>

fun invoke_loop ::
  "env \<Rightarrow> tool list \<Rightarrow> string \<Rightarrow> invocation list \<Rightarrow> (string \<rightharpoonup> jsval) \<Rightarrow> string \<Rightarrow> nat \<Rightarrow>
     event step list \<times> (error + (string \<rightharpoonup> jsval) \<times> string) \<times> nat" where
  "invoke_loop E tools tm [] results fr n = ([], Inr (results, fr), n)"
| "invoke_loop E tools tm (f # fs) results fr n =
     (case find_tool tools (fc_tool_name f) of
        None \<Rightarrow> ([], Inl (ToolNotFound (invocation_obj f)), n)
      | Some t \<Rightarrow>
         (case invokeFunction E t tm (fc_context f) n of
            (steps, err, n') \<Rightarrow>
              (case consume_results E t steps results fr of
                 (evs, results', fr') \<Rightarrow>
                   (case err of
                      Some e \<Rightarrow> (Yield (ToolInvoke t) # evs, Inl e, n')
                    | None \<Rightarrow>
                       (case invoke_loop E tools tm fs results' fr' n' of
                          (rest, out, n'') \<Rightarrow> (Yield (ToolInvoke t) # evs @ rest, out, n''))))))"

text \<open>\<^verbatim>\<open>Object.fromEntries(tools.map(tool => [tool.anthropic.tool_name, tool]))\<close>\<close>

definition tools_by_name :: "tool list \<Rightarrow> (string \<rightharpoonup> tool)" where
  "tools_by_name tools = map_of (rev (map (\<lambda>t. (tool_name t, t)) tools))"

definition invokeFunctions ::
  "env \<Rightarrow> tool list \<Rightarrow> string \<Rightarrow> invocation list \<Rightarrow> nat \<Rightarrow>
     event step list \<times> error option \<times> nat" where
  "invokeFunctions E tools tm functionCallsArray n =
     (case invoke_loop E tools tm functionCallsArray Map.empty results_open n of
        (steps, Inl e, n') \<Rightarrow> (steps, Some e, n')
      | (steps, Inr (results, fr), n') \<Rightarrow>
          (steps @ [Yield (ToolResults (tools_by_name tools) results
                      [\<lparr>role = User, content = Str (fr @ ''</function_results>'')\<rparr>])],
           None, n'))"

subsection \<open>The stream and its iterator\<close>

definition tools_of :: "body \<Rightarrow> tool list" where
  "tools_of b = (case b_tools b of None \<Rightarrow> [] | Some ts \<Rightarrow> ts)"

text \<open>\<^verbatim>\<open>body.tools_model || body.model\<close>\<close>

definition tools_model_of :: "body \<Rightarrow> string" where
  "tools_model_of b =
     (case b_tools_model b of None \<Rightarrow> b_model b | Some m \<Rightarrow> if m = [] then b_model b else m)"

text \<open>
  \<^verbatim>\<open>tools.length > 0 ? [...(body.stop_sequences || []), '</function_calls>'] : []\<close>
\<close>

definition stream_stop_sequences :: "tool list \<Rightarrow> string list option \<Rightarrow> string list" where
  "stream_stop_sequences tools ss =
     (if tools \<noteq> [] then (case ss of None \<Rightarrow> [] | Some xs \<Rightarrow> xs) @ [end_marker] else [])"

definition stream_request :: "body \<Rightarrow> request" where
  "stream_request b =
     \<lparr>model = b_model b,
      system = buildSystemMessage (tools_of b) (b_system b),
      messages = b_messages b,
      stop_sequences = Some (stream_stop_sequences (tools_of b) (b_stop_sequences b)),
      max_tokens = b_max_tokens b,
      streaming = True\<rparr>"

text \<open>
  What the closure \<^verbatim>\<open>iterator\<close> captures: the provider's stream, the body (after the
  two \<^verbatim>\<open>delete\<close>s), the tools, the model of the resolver, the array \<^verbatim>\<open>content\<close> and
  the flag \<^verbatim>\<open>consumed\<close>.
\<close>

record stream_inst =
  s_stream :: "chunk list"
  s_body :: body
  s_tools :: "tool list"
  s_tools_model :: string
  s_content :: "string option list"
  consumed :: bool

text \<open>\<^verbatim>\<open>stream\<close> sends the first request and returns the stream object, not yet iterated.\<close>

definition stream :: "env \<Rightarrow> body \<Rightarrow> nat \<Rightarrow> stream_inst \<times> action list" where
  "stream E b n =
     (\<lparr>s_stream = create_stream E n (stream_request b),
       s_body = b\<lparr>b_tools := None, b_tools_model := None\<rparr>,
       s_tools = tools_of b,
       s_tools_model = tools_model_of b,
       s_content = [],
       consumed = False\<rparr>,
      [Request (stream_request b)])"

definition final_system :: "string option \<Rightarrow> string" where
  "final_system sys =
     text_lines [''You have finished calling the tools. You MUST NOT call any more tools. Just tell the user the results of the tools you called.'']
     @ template sys"

definition final_request :: "body \<Rightarrow> message list \<Rightarrow> request" where
  "final_request b msgs =
     \<lparr>model = b_model b,
      system = final_system (b_system b),
      messages = msgs,
      stop_sequences = b_stop_sequences b,
      max_tokens = b_max_tokens b,
      streaming = True\<rparr>"

definition sendFinalResponse :: "env \<Rightarrow> body \<Rightarrow> message list \<Rightarrow> nat \<Rightarrow> action list" where
  "sendFinalResponse E b msgs n =
     Request (final_request b msgs)
       # map (\<lambda>ch. Emit (Provider ch)) (create_stream E n (final_request b msgs))"

text \<open>
  The loop of the iterator over \<^verbatim>\<open>invokeFunctions\<close>: \<^verbatim>\<open>tool_error\<close> is passed on and
  the loop is left (which closes the generator: the flag), \<^verbatim>\<open>tool_result\<close> and
  \<^verbatim>\<open>tool_results\<close> are passed on, and no branch passes any other event on.
\<close>

fun forward :: "event step list \<Rightarrow> action list \<times> bool" where
  "forward [] = ([], False)"
| "forward (Act a # ss) = (case forward ss of (as, b) \<Rightarrow> (a # as, b))"
| "forward (Yield (ToolError t e) # ss) = ([Emit (ToolError t e)], True)"
| "forward (Yield (ToolResult t v) # ss) =
     (case forward ss of (as, b) \<Rightarrow> (Emit (ToolResult t v) # as, b))"
| "forward (Yield (ToolResults ts rs ms) # ss) =
     (case forward ss of (as, b) \<Rightarrow> (Emit (ToolResults ts rs ms) # as, b))"
| "forward (Yield ev # ss) = forward ss"

text \<open>The requests and tool calls among some actions: they advance the time.\<close>

fun is_external :: "action \<Rightarrow> bool" where
  "is_external (Request r) = True"
| "is_external (CallTool name v) = True"
| "is_external a = False"

definition ext_count :: "action list \<Rightarrow> nat" where
  "ext_count as = length (filter is_external as)"

text \<open>
  The iterator after the provider's stream has ended, on the text of block 0: what it
  does, and the error it throws, if any.
\<close>

definition tool_round :: "env \<Rightarrow> stream_inst \<Rightarrow> string \<Rightarrow> nat \<Rightarrow> action list \<times> error option" where
  "tool_round E s text n =
     (if includes_str text start_marker
      then (case extractFunctionCalls E text of
              Inl e \<Rightarrow> ([], Some e)
            | Inr functionCallsArray \<Rightarrow>
                if functionCallsArray \<noteq> []
                then (case invokeFunctions E (s_tools s) (s_tools_model s) functionCallsArray n of
                        (steps, err, n') \<Rightarrow>
                          (case forward steps of
                             (acts, broke) \<Rightarrow>
                               if \<not> broke \<and> err \<noteq> None then (acts, err)
                               else (acts @ sendFinalResponse E (s_body s) (b_messages (s_body s))
                                              (n + ext_count acts), None)))
                else ([], None))
      else ([], None))"

text \<open>
  One iteration of the stream object at time \<open>n\<close>, consumed to its end: the error
  thrown to the consumer, what was done, and the object afterwards. An error aborts
  the provider's stream on the way out (\<^verbatim>\<open>finally\<close>); the guard is before the
  \<^verbatim>\<open>try\<close>. Cancellation by the consumer is not part of this model.
\<close>

definition iterate :: "env \<Rightarrow> stream_inst \<Rightarrow> nat \<Rightarrow> error option \<times> action list \<times> stream_inst" where
  "iterate E s n =
     (if consumed s then (Some StreamConsumed, [], s)
      else case process_stream (s_stream s) (s_content s) of
        (chs, err, c) \<Rightarrow>
          (let s' = s\<lparr>s_content := c, consumed := True\<rparr>;
               evs = map (\<lambda>ch. Emit (Provider ch)) chs
           in case err of
                Some e \<Rightarrow> (Some e, evs @ [Abort], s')
              | None \<Rightarrow>
                 (case get_idx c 0 of
                    None \<Rightarrow> (Some TypeError, evs @ [Abort], s')
                  | Some text \<Rightarrow>
                     (case tool_round E s' text n of
                        (acts, None) \<Rightarrow> (None, evs @ acts, s')
                      | (acts, Some e) \<Rightarrow> (Some e, evs @ acts @ [Abort], s')))))"

section \<open>Buffered mode\<close>

subsection \<open>Tool catalog prompt\<close>

definition preamble_v1 :: string where
  "preamble_v1 = text_lines
     [''In this environment you have access to a set of tools you can use to answer the user's question.'',
      [],
      ''You may call them like this:'',
      ''<function_calls>'',
      ''<invoke>'',
      ''<tool_name>$TOOL_NAME</tool_name>'',
      ''<parameters>'',
      ''<$PARAMETER_NAME>$PARAMETER_VALUE</$PARAMETER_NAME>'',
      ''...'',
      ''</parameters>'',
      ''</invoke>'',
      ''</function_calls>'',
      [],
      ''Here are the tools available:'',
      ''<tools>'']"

definition param_xml :: "string \<times> param_data \<Rightarrow> string" where
  "param_xml kp =
     (case kp of
        (key, pd) \<Rightarrow>
          text_lines [''<parameter>'',
                      ''<name>'' @ key @ ''</name>'',
                      ''<type>'' @ template (p_type pd) @ ''</type>'',
                      ''<description>'' @ template (p_description pd) @ ''</description>'']
          @ (if p_type pd = Some ''array''
             then (case p_items pd of
                     None \<Rightarrow> []
                   | Some x \<Rightarrow> text_lines [''<items>'' @ x @ ''</items>''])
             else [])
          @ (case p_properties pd of
               None \<Rightarrow> []
             | Some x \<Rightarrow> text_lines [''<properties>'' @ x @ ''</properties>''])
          @ text_lines [''</parameter>''])"

definition tool_description_v1 :: "tool \<Rightarrow> string" where
  "tool_description_v1 t =
     text_lines [''<tool_description>'',
                 ''<name>'' @ tool_name t @ ''</name>'',
                 ''<description>'' @ description t @ ''</description>'',
                 ''<parameters>'']
     @ concat (map param_xml (schema_props t))
     @ text_lines [''</parameters>'', ''</tool_description>'']"

definition build_system_v1 :: "tool list \<Rightarrow> string option \<Rightarrow> string" where
  "build_system_v1 tools sys =
     (if tools \<noteq> [] then preamble_v1 else [])
     @ concat (map tool_description_v1 tools)
     @ (if tools \<noteq> [] then text_lines [''</tools>''] else [])
     @ or_empty sys"

text \<open>
  \<^verbatim>\<open>body.stop_sequences = [...(body.stop_sequences || []), '</function_calls>']\<close>,
  done only when there are tools.
\<close>

definition buffered_stop_sequences :: "tool list \<Rightarrow> string list option \<Rightarrow> string list option" where
  "buffered_stop_sequences tools ss =
     (if tools \<noteq> [] then Some ((case ss of None \<Rightarrow> [] | Some xs \<Rightarrow> xs) @ [end_marker]) else ss)"

definition buffered_request :: "tool list \<Rightarrow> body \<Rightarrow> request" where
  "buffered_request tools b =
     \<lparr>model = b_model b,
      system = build_system_v1 tools (b_system b),
      messages = b_messages b,
      stop_sequences = buffered_stop_sequences tools (b_stop_sequences b),
      max_tokens = b_max_tokens b,
      streaming = False\<rparr>"

subsection \<open>Messages and the result of a call\<close>

text \<open>
  \<^verbatim>\<open>getTextFromMessage\<close> on the content of a message: \<open>None\<close> is \<^verbatim>\<open>null\<close>. The
  buffered loop builds no message whose content is a raw value.
\<close>

fun getTextFromMessage :: "msg_content \<Rightarrow> string option" where
  "getTextFromMessage (Str s) = (if s = [] then None else Some s)"
| "getTextFromMessage (Blocks []) = None"
| "getTextFromMessage (Blocks (TextBlock s # bs)) = (if s = [] then None else Some s)"
| "getTextFromMessage (Blocks (b # bs)) = None"
| "getTextFromMessage (Raw v) = None"

definition results_marker :: string where
  "results_marker = ''<function_results>''"

definition keep_message :: "message \<Rightarrow> bool" where
  "keep_message m =
     (case getTextFromMessage (content m) of
        None \<Rightarrow> True
      | Some text \<Rightarrow> \<not> includes_str text start_marker \<and> \<not> includes_str text results_marker)"

record result =
  response :: "block list"
  fullMessages :: "message list"
  filteredMessages :: "message list"

definition make_result :: "block list \<Rightarrow> message list \<Rightarrow> result" where
  "make_result resp msgs =
     \<lparr>response = resp, fullMessages = msgs, filteredMessages = filter keep_message msgs\<rparr>"

subsection \<open>Invocation block parser\<close>

text \<open>The record \<^verbatim>\<open>{name, parameters}\<close> pushed on \<^verbatim>\<open>functions\<close>.\<close>

record fn_call =
  fn_name :: jsval
  fn_parameters :: jsval

fun dec :: "nat \<Rightarrow> string" where
  "dec n = (if n < 10 then [''0123456789'' ! n]
            else dec (n div 10) @ [''0123456789'' ! (n mod 10)])"

text \<open>
  \<^verbatim>\<open>for (const parameterName in parameters) parameterValues[parameterName] = ...\<close>: the
  entries of an object, the indexed elements of an array or characters of a string,
  and nothing for any other value.
\<close>

fun parameterValues :: "jsval \<Rightarrow> (string \<times> jsval) list" where
  "parameterValues (JObj kvs) = kvs"
| "parameterValues (JArr xs) = zip (map dec [0..<length xs]) xs"
| "parameterValues (JStr s) = zip (map dec [0..<length s]) (map (\<lambda>c. JStr [c]) s)"
| "parameterValues v = []"

definition invoke_record :: "jsval \<Rightarrow> error + fn_call" where
  "invoke_record call =
     ebind (get_prop call ''invoke'') (\<lambda>i.
     ebind (get_prop i ''tool_name'') (\<lambda>toolName.
     ebind (get_prop i ''parameters'') (\<lambda>ps.
       Inr \<lparr>fn_name = toolName, fn_parameters = JObj (parameterValues ps)\<rparr>)))"

text \<open>\<^verbatim>\<open>Array.isArray(calls) ? calls : [calls]\<close>\<close>

definition invokeArray :: "jsval \<Rightarrow> jsval list" where
  "invokeArray calls = (case calls of JArr cs \<Rightarrow> cs | _ \<Rightarrow> [calls])"

text \<open>The invocations that one pass of the loop pushes on \<^verbatim>\<open>functions\<close>.\<close>

definition parse_invocations :: "env \<Rightarrow> string \<Rightarrow> error + fn_call list" where
  "parse_invocations E text =
     (case xml_parse E (wrap_block text) of
        None \<Rightarrow> Inl InvocationParseError
      | Some parsed \<Rightarrow>
          ebind (get_prop parsed ''function_calls'') (\<lambda>calls.
            map_err invoke_record (invokeArray calls)))"

subsection \<open>Running the queued functions\<close>

definition validation_error_block :: string where
  "validation_error_block =
     text_lines [''<function_results>'', ''<error>'',
                 ''Invalid parameters passed to the function'', ''</error>'']"

text \<open>
  The repository has two versions of the buffered call: \<^verbatim>\<open>runWithTools\<close> validates
  the parameters against the schema and prints values with \<^verbatim>\<open>JSON.stringify\<close>; the
  older \<^verbatim>\<open>invoke\<close> passes the parameters on as they are and interpolates the values.
  The flag \<open>checked\<close> is true for \<^verbatim>\<open>runWithTools\<close>.
\<close>

definition check_parameters :: "bool \<Rightarrow> tool \<Rightarrow> jsval \<Rightarrow> jsval + jsval" where
  "check_parameters checked t ps = (if checked then parameters t ps else Inr ps)"

definition render :: "env \<Rightarrow> bool \<Rightarrow> jsval \<Rightarrow> string" where
  "render E checked v = (if checked then json_stringify E v else to_string E v)"

definition error_block :: "env \<Rightarrow> bool \<Rightarrow> jsval \<Rightarrow> string" where
  "error_block E checked e =
     text_lines [''<function_results>'', ''<error>'', render E checked e, ''</error>'']"

definition fragment :: "env \<Rightarrow> bool \<Rightarrow> string \<Rightarrow> jsval \<Rightarrow> string" where
  "fragment E checked name v =
     text_lines [''<function_result>'', ''<tool_name>'' @ name @ ''</tool_name>'',
                 ''<result>'' @ render E checked v @ ''</result>'', ''</function_result>'']"

text \<open>
  \<^verbatim>\<open>for (const func of functions)\<close>, from the accumulator \<open>fr\<close> at time \<open>n\<close>: the
  tool calls made, the error thrown or the accumulator at the end, and the time
  afterwards. In the fragment of a success \<^verbatim>\<open>${func.name}\<close> is the tool's name, since
  \<^verbatim>\<open>find\<close> compared them with \<^verbatim>\<open>===\<close>.
\<close>

fun run_functions ::
  "env \<Rightarrow> bool \<Rightarrow> tool list \<Rightarrow> fn_call list \<Rightarrow> string \<Rightarrow> nat \<Rightarrow>
     action list \<times> (error + string) \<times> nat" where
  "run_functions E checked tools [] fr n = ([], Inr fr, n)"
| "run_functions E checked tools (f # fs) fr n =
     (case find_tool tools (fn_name f) of
        None \<Rightarrow> ([], Inl (ToolNotFound (fn_name f)), n)
      | Some t \<Rightarrow>
         (case check_parameters checked t (fn_parameters f) of
            Inl e \<Rightarrow> ([], Inr validation_error_block, n)
          | Inr d \<Rightarrow>
             (case func t n d of
                Inl e \<Rightarrow> ([CallTool (tool_name t) d], Inr (error_block E checked e), Suc n)
              | Inr v \<Rightarrow>
                 (case run_functions E checked tools fs
                         (fr @ fragment E checked (tool_name t) v) (Suc n) of
                    (acts, out) \<Rightarrow> (CallTool (tool_name t) d # acts, out)))))"

subsection \<open>The turn loop\<close>

text \<open>
  The variables of the loop: \<^verbatim>\<open>text\<close> (always the text of block 0 of \<^verbatim>\<open>response\<close>),
  \<^verbatim>\<open>first\<close>, \<^verbatim>\<open>functions\<close>, \<^verbatim>\<open>body.messages\<close>, \<^verbatim>\<open>response\<close>, and the time.
\<close>

record loop_state =
  l_text :: string
  l_first :: bool
  l_functions :: "fn_call list"
  l_messages :: "message list"
  l_response :: "block list"
  l_time :: nat

datatype flow = Return result | Continue loop_state

text \<open>The assistant turn appended when the pass is not the first.\<close>

definition assistant_turn :: "loop_state \<Rightarrow> message list" where
  "assistant_turn st =
     (if l_first st then [] else [\<lparr>role = Assistant, content = Str (l_text st)\<rparr>])"

definition result_message :: "string \<Rightarrow> message" where
  "result_message fr = \<lparr>role = User, content = Str (fr @ ''</function_results>'')\<rparr>"

text \<open>One pass of the body of \<^verbatim>\<open>while (text.includes('<function_calls>'))\<close>.\<close>

definition loop_body ::
  "env \<Rightarrow> bool \<Rightarrow> tool list \<Rightarrow> request \<Rightarrow> loop_state \<Rightarrow> action list \<times> (error + flow)" where
  "loop_body E checked tools req st =
     (case parse_invocations E (l_text st) of
        Inl e \<Rightarrow> ([], Inl e)
      | Inr new \<Rightarrow>
         (let functions = l_functions st @ new in
          if functions \<noteq> []
          then (case run_functions E checked tools functions results_open (l_time st) of
                  (acts, Inl e, n) \<Rightarrow> (acts, Inl e)
                | (acts, Inr fr, n) \<Rightarrow>
                   (let msgs = l_messages st @ assistant_turn st @ [result_message fr];
                        resp = create E n (req\<lparr>messages := msgs\<rparr>)
                    in case getTextFromMessage (Blocks resp) of
                         None \<Rightarrow>
                           (acts @ [Request (req\<lparr>messages := msgs\<rparr>)],
                            Inr (Return (make_result resp msgs)))
                       | Some t \<Rightarrow>
                           (acts @ [Request (req\<lparr>messages := msgs\<rparr>)],
                            Inr (Continue \<lparr>l_text = t, l_first = False, l_functions = functions,
                                           l_messages = msgs, l_response = resp,
                                           l_time = Suc n\<rparr>))))
          else ([], Inr (Continue (st\<lparr>l_first := False, l_functions := functions,
                                       l_messages := l_messages st @ assistant_turn st\<rparr>)))))"

text \<open>The value returned after the loop.\<close>

definition finish :: "loop_state \<Rightarrow> result" where
  "finish st = make_result (l_response st) (l_messages st @ assistant_turn st)"

text \<open>
  The loop has no bound on its passes, so it is run with fuel: \<open>None\<close> is a loop that
  has not ended in \<open>k\<close> passes. Otherwise, what the passes did and the error thrown or
  the value returned.
\<close>

fun turn_loop ::
  "nat \<Rightarrow> env \<Rightarrow> bool \<Rightarrow> tool list \<Rightarrow> request \<Rightarrow> loop_state \<Rightarrow>
     (action list \<times> (error + result)) option" where
  "turn_loop 0 E checked tools req st =
     (if \<not> includes_str (l_text st) start_marker then Some ([], Inr (finish st)) else None)"
| "turn_loop (Suc k) E checked tools req st =
     (if \<not> includes_str (l_text st) start_marker then Some ([], Inr (finish st))
      else case loop_body E checked tools req st of
             (acts, Inl e) \<Rightarrow> Some (acts, Inl e)
           | (acts, Inr (Return r)) \<Rightarrow> Some (acts, Inr r)
           | (acts, Inr (Continue st')) \<Rightarrow>
               map_option (\<lambda>(as, r). (acts @ as, r)) (turn_loop k E checked tools req st'))"

text \<open>
  The call itself, with the registry \<open>tools\<close>: the first request, then the loop.
  \<^verbatim>\<open>runWithTools\<close> takes the tools of the body; \<^verbatim>\<open>invoke\<close> puts the tools of the
  client before them.
\<close>

definition buffered_call ::
  "nat \<Rightarrow> env \<Rightarrow> bool \<Rightarrow> tool list \<Rightarrow> body \<Rightarrow> nat \<Rightarrow> (action list \<times> (error + result)) option" where
  "buffered_call k E checked tools b n =
     (let req = buffered_request tools b;
          resp = create E n req;
          msgs = b_messages b @ [\<lparr>role = Assistant, content = Blocks resp\<rparr>]
      in case getTextFromMessage (Blocks resp) of
           None \<Rightarrow> Some ([Request req], Inr (make_result resp msgs))
         | Some text \<Rightarrow>
             map_option (\<lambda>(as, r). (Request req # as, r))
               (turn_loop k E checked tools req
                  \<lparr>l_text = text, l_first = True, l_functions = [], l_messages = msgs,
                   l_response = resp, l_time = Suc n\<rparr>))"

definition runWithTools :: "nat \<Rightarrow> env \<Rightarrow> body \<Rightarrow> nat \<Rightarrow> (action list \<times> (error + result)) option" where
  "runWithTools k E b n = buffered_call k E True (tools_of b) b n"

definition invoke ::
  "nat \<Rightarrow> env \<Rightarrow> tool list \<Rightarrow> body \<Rightarrow> nat \<Rightarrow> (action list \<times> (error + result)) option" where
  "invoke k E client_tools b n = buffered_call k E False (client_tools @ tools_of b) b n"

section \<open>Observations on a run\<close>

text \<open>What a generator yielded, and what a run handed to the consumer.\<close>

fun yields :: "'y step list \<Rightarrow> 'y list" where
  "yields [] = []"
| "yields (Act a # ss) = yields ss"
| "yields (Yield y # ss) = y # yields ss"

fun emitted :: "action list \<Rightarrow> event list" where
  "emitted [] = []"
| "emitted (Emit ev # as) = ev # emitted as"
| "emitted (a # as) = emitted as"

fun requests_of :: "action list \<Rightarrow> request list" where
  "requests_of [] = []"
| "requests_of (Request r # as) = r # requests_of as"
| "requests_of (a # as) = requests_of as"

text \<open>The names of the tools whose functions were called, in order.\<close>

fun called_names :: "action list \<Rightarrow> string list" where
  "called_names [] = []"
| "called_names (CallTool name v # as) = name # called_names as"
| "called_names (a # as) = called_names as"

text \<open>
  The tool calls of a buffered call, grouped by the request that follows them: one
  group for each pass of the loop that sent a request.
\<close>

fun calls_by_round :: "action list \<Rightarrow> string list \<Rightarrow> string list list" where
  "calls_by_round [] cur = []"
| "calls_by_round (Request r # as) cur = cur # calls_by_round as []"
| "calls_by_round (CallTool name v # as) cur = calls_by_round as (cur @ [name])"
| "calls_by_round (a # as) cur = calls_by_round as cur"

text \<open>
  The steps of \<^verbatim>\<open>invokeFunctions\<close> that run when the iterator of \<^verbatim>\<open>stream\<close> drives it:
  all of them up to the first \<^verbatim>\<open>tool_error\<close>, where the iterator leaves its loop.
\<close>

fun driven :: "event step list \<Rightarrow> event step list" where
  "driven [] = []"
| "driven (Act a # ss) = Act a # driven ss"
| "driven (Yield (ToolError t e) # ss) = [Yield (ToolError t e)]"
| "driven (Yield ev # ss) = Yield ev # driven ss"

fun is_invoke :: "event \<Rightarrow> bool" where
  "is_invoke (ToolInvoke t) = True"
| "is_invoke ev = False"

fun is_outcome :: "event \<Rightarrow> bool" where
  "is_outcome (ToolResult t v) = True"
| "is_outcome (ToolError t e) = True"
| "is_outcome ev = False"

fun is_results :: "event \<Rightarrow> bool" where
  "is_results (ToolResults ts rs ms) = True"
| "is_results ev = False"

definition count_invokes :: "event list \<Rightarrow> nat" where
  "count_invokes evs = length (filter is_invoke evs)"

text \<open>
  Every \<^verbatim>\<open>tool_invoke\<close> is followed by exactly one \<^verbatim>\<open>tool_result\<close> or
  \<^verbatim>\<open>tool_error\<close> before the next \<^verbatim>\<open>tool_invoke\<close> and before the end; the flag says
  that an invocation is waiting for its outcome.
\<close>

fun exactly_one_outcome :: "bool \<Rightarrow> event list \<Rightarrow> bool" where
  "exactly_one_outcome waiting [] = (\<not> waiting)"
| "exactly_one_outcome waiting (ev # evs) =
     (if is_invoke ev then \<not> waiting \<and> exactly_one_outcome True evs
      else if is_outcome ev then waiting \<and> exactly_one_outcome False evs
      else exactly_one_outcome waiting evs)"

text \<open>
  The weaker discipline: an outcome only answers a waiting \<^verbatim>\<open>tool_invoke\<close>, and at
  most one does.
\<close>

fun at_most_one_outcome :: "bool \<Rightarrow> event list \<Rightarrow> bool" where
  "at_most_one_outcome waiting [] = True"
| "at_most_one_outcome waiting (ev # evs) =
     (if is_invoke ev then at_most_one_outcome True evs
      else if is_outcome ev then waiting \<and> at_most_one_outcome False evs
      else at_most_one_outcome waiting evs)"

text \<open>
  A pass of the buffered loop gets through these invocations: each names a registered
  tool, passes validation and its function resolves.
\<close>

fun runs_through :: "env \<Rightarrow> bool \<Rightarrow> tool list \<Rightarrow> fn_call list \<Rightarrow> nat \<Rightarrow> bool" where
  "runs_through E checked tools [] n = True"
| "runs_through E checked tools (f # fs) n =
     (case find_tool tools (fn_name f) of
        None \<Rightarrow> False
      | Some t \<Rightarrow>
         (case check_parameters checked t (fn_parameters f) of
            Inl e \<Rightarrow> False
          | Inr d \<Rightarrow>
             (case func t n d of
                Inl e \<Rightarrow> False
              | Inr v \<Rightarrow> runs_through E checked tools fs (Suc n))))"

section \<open>Example configurations\<close>

text \<open>
  Small tools, collaborators and bodies on which the theorems below are instantiated.
\<close>

definition mk_tool :: "string \<Rightarrow> (jsval \<Rightarrow> jsval + jsval) \<Rightarrow> (nat \<Rightarrow> jsval \<Rightarrow> jsval + jsval) \<Rightarrow> tool" where
  "mk_tool name validate f =
     \<lparr>tool_name = name, description = ''a tool'', parameters = validate,
      schema_props = [], schema_json = ''{}'', func = f\<rparr>"

text \<open>A tool that resolves with a value, one that resolves with \<^verbatim>\<open>undefined\<close>, one that
  rejects, and one that works until time 6 and rejects from then on.\<close>

definition lookup_tool :: tool where
  "lookup_tool = mk_tool ''lookup'' Inr (\<lambda>n v. Inr (JStr ''found''))"

definition silent_tool :: tool where
  "silent_tool = mk_tool ''silent'' Inr (\<lambda>n v. Inr JUndefined)"

definition failing_tool :: tool where
  "failing_tool = mk_tool ''failing'' Inr (\<lambda>n v. Inl (JStr ''boom''))"

definition flaky_tool :: tool where
  "flaky_tool = mk_tool ''flaky'' Inr (\<lambda>n v. if n < 6 then Inr (JStr ''up'') else Inl (JStr ''down''))"

text \<open>A tool with one parameter, which its schema describes by its type alone.\<close>

definition search_tool :: tool where
  "search_tool =
     \<lparr>tool_name = ''search'', description = ''finds pages'', parameters = Inr,
      schema_props = [(''q'', \<lparr>p_type = Some ''string'', p_description = None,
                              p_items = None, p_properties = None\<rparr>)],
      schema_json = ''{}'', func = (\<lambda>n v. Inr (JStr ''hits''))\<rparr>"

text \<open>
  A reply of the provider in streamed mode that asks for one tool (the reply ends where
  the stop sequence would follow), and the value of \<^verbatim>\<open>function_calls\<close> that the XML
  parser returns for its block.
\<close>

definition invoke_text :: "string \<Rightarrow> string" where
  "invoke_text name = text_lines
     [''<function_calls>'',
      ''<invoke>'',
      ''<tool_name>'' @ name @ ''</tool_name>'',
      ''<context>go</context>'',
      ''</invoke>'']"

definition invoke_fields :: "string \<Rightarrow> jsval" where
  "invoke_fields name = JObj [(''tool_name'', JStr name), (''context'', JStr ''go'')]"

definition invoke_js :: "string \<Rightarrow> jsval" where
  "invoke_js name = JObj [(''invoke'', invoke_fields name)]"

text \<open>
  A reply with two invoke elements in its block, and the value of \<^verbatim>\<open>function_calls\<close>
  that the XML parser returns for it: the parser collects repeated children of an
  element in an array under their tag.
\<close>

definition two_invokes_text :: string where
  "two_invokes_text = text_lines
     [''Let me look.'',
      ''<function_calls>'',
      ''<invoke>'',
      ''<tool_name>lookup</tool_name>'',
      ''<context>go</context>'',
      ''</invoke>'',
      ''<invoke>'',
      ''<tool_name>silent</tool_name>'',
      ''<context>go</context>'',
      ''</invoke>'']"

definition two_invokes_js :: jsval where
  "two_invokes_js = JObj [(''invoke'', JArr [invoke_fields ''lookup'', invoke_fields ''silent''])]"

text \<open>The same for the buffered mode, with one parameter.\<close>

definition invoke_params_text :: "string \<Rightarrow> string" where
  "invoke_params_text name = text_lines
     [''<function_calls>'',
      ''<invoke>'',
      ''<tool_name>'' @ name @ ''</tool_name>'',
      ''<parameters>'',
      ''<q>x</q>'',
      ''</parameters>'',
      ''</invoke>'']"

definition invoke_params_js :: "string \<Rightarrow> jsval" where
  "invoke_params_js name =
     JObj [(''invoke'', JObj [(''tool_name'', JStr name),
                              (''parameters'', JObj [(''q'', JStr ''x'')])])]"

text \<open>
  Stand-ins for the two printers. \<^verbatim>\<open>JSON.stringify\<close> puts a string between double
  quotes and escapes the quote, the backslash and the control characters in it; it
  prints \<^verbatim>\<open>undefined\<close> as \<^verbatim>\<open>null\<close> inside an array and leaves a member with that
  value out of an object; on \<^verbatim>\<open>undefined\<close> itself it returns \<^verbatim>\<open>undefined\<close>, which the
  template literal prints as such.
\<close>

definition json_char :: "char \<Rightarrow> string" where
  "json_char c =
     (if c = CHR 0x22 then [CHR 0x5C, CHR 0x22]
      else if c = CHR 0x5C then [CHR 0x5C, CHR 0x5C]
      else if c = CHR 0x08 then [CHR 0x5C, CHR ''b'']
      else if c = CHR 0x0C then [CHR 0x5C, CHR ''f'']
      else if c = CHR 0x0A then [CHR 0x5C, CHR ''n'']
      else if c = CHR 0x0D then [CHR 0x5C, CHR ''r'']
      else if c = CHR 0x09 then [CHR 0x5C, CHR ''t'']
      else if (of_char c :: nat) < 32
      then [CHR 0x5C, CHR ''u'', CHR ''0'', CHR ''0'',
            ''0123456789abcdef'' ! (of_char c div 16), ''0123456789abcdef'' ! (of_char c mod 16)]
      else [c])"

definition json_string :: "string \<Rightarrow> string" where
  "json_string s = [CHR 0x22] @ concat (map json_char s) @ [CHR 0x22]"

fun join_with :: "string \<Rightarrow> string list \<Rightarrow> string" where
  "join_with sep [] = []"
| "join_with sep [x] = x"
| "join_with sep (x # y # ys) = x @ sep @ join_with sep (y # ys)"

definition print_int :: "int \<Rightarrow> string" where
  "print_int i = (if i < 0 then ''-'' @ dec (nat (- i)) else dec (nat i))"

fun print_js :: "jsval \<Rightarrow> string"
  and print_elements :: "jsval list \<Rightarrow> string list"
  and print_members :: "(string \<times> jsval) list \<Rightarrow> string list" where
  "print_js JUndefined = ''undefined''"
| "print_js JNull = ''null''"
| "print_js (JBool b) = (if b then ''true'' else ''false'')"
| "print_js (JNum i) = print_int i"
| "print_js (JStr s) = json_string s"
| "print_js (JArr xs) = ''['' @ join_with '','' (print_elements xs) @ '']''"
| "print_js (JObj kvs) = ''{'' @ join_with '','' (print_members kvs) @ ''}''"
| "print_elements [] = []"
| "print_elements (x # xs) = (if x = JUndefined then ''null'' else print_js x) # print_elements xs"
| "print_members [] = []"
| "print_members ((k, v) # kvs) =
     (if v = JUndefined then print_members kvs
      else (json_string k @ '':'' @ print_js v) # print_members kvs)"

text \<open>
  \<^verbatim>\<open>${v}\<close>: a string as it is, an array as its elements joined by commas (nothing
  for \<^verbatim>\<open>null\<close> and \<^verbatim>\<open>undefined\<close> among them), and any other object as
  \<^verbatim>\<open>[object Object]\<close>.
\<close>

fun show_js :: "jsval \<Rightarrow> string"
  and show_elements :: "jsval list \<Rightarrow> string list" where
  "show_js JUndefined = ''undefined''"
| "show_js JNull = ''null''"
| "show_js (JBool b) = (if b then ''true'' else ''false'')"
| "show_js (JNum i) = print_int i"
| "show_js (JStr s) = s"
| "show_js (JArr xs) = join_with '','' (show_elements xs)"
| "show_js (JObj kvs) = ''[object Object]''"
| "show_elements [] = []"
| "show_elements (x # xs) =
     (if x = JUndefined \<or> x = JNull then [] else show_js x) # show_elements xs"

text \<open>
  Collaborators for a streamed call. The first stream of the provider, at time 0, is
  the text \<open>reply\<close> in one block, and the XML parser returns \<open>calls\<close> as the
  \<^verbatim>\<open>function_calls\<close> of its block. The stream of a resolver's request (the requests
  with 4000 tokens) is the text of an empty JSON object, which the JSON extraction
  reads; any other stream is a plain answer.
\<close>

definition env_for :: "string \<Rightarrow> jsval \<Rightarrow> env" where
  "env_for reply calls =
     \<lparr>xml_parse = (\<lambda>s. Some (JObj [(''function_calls'', calls)])),
      json_parse = (\<lambda>s. Inr (JObj [])),
      json_stringify = print_js,
      to_string = show_js,
      create = (\<lambda>n r. [TextBlock ''Done.'']),
      create_stream = (\<lambda>n r. if n = 0 then [ContentBlockStart 0 reply]
                              else if max_tokens r = 4000 then [ContentBlockStart 0 ''{}'']
                              else [ContentBlockStart 0 ''Done.''])\<rparr>"

text \<open>The provider asks for the tool \<open>name\<close>.\<close>

definition ex_env :: "string \<Rightarrow> env" where
  "ex_env name = env_for (invoke_text name) (invoke_js name)"

definition ex_body :: "tool list \<Rightarrow> body" where
  "ex_body tools =
     \<lparr>b_model = ''m'', b_system = Some ''Be brief.'',
      b_messages = [\<lparr>role = User, content = Str ''hi''\<rparr>],
      b_stop_sequences = Some [''STOP''], b_max_tokens = 100,
      b_tools = Some tools, b_tools_model = None\<rparr>"

text \<open>
  Collaborators for a buffered call: the reply of the provider at each time, and an XML
  parser that returns the invoke element of the tool named in the block.
\<close>

definition named_in :: "string \<Rightarrow> string" where
  "named_in s =
     (if includes_str s ''<tool_name>flaky'' then ''flaky''
      else if includes_str s ''<tool_name>lookup'' then ''lookup''
      else ''missing'')"

definition buffered_env :: "(nat \<Rightarrow> string) \<Rightarrow> env" where
  "buffered_env replies =
     \<lparr>xml_parse = (\<lambda>s. Some (JObj [(''function_calls'', invoke_params_js (named_in s))])),
      json_parse = (\<lambda>s. Inr (JObj [])),
      json_stringify = print_js,
      to_string = show_js,
      create = (\<lambda>n r. [TextBlock (replies n)]),
      create_stream = (\<lambda>n r. [])\<rparr>"

text \<open>
  A call of three passes: the provider asks for \<^verbatim>\<open>flaky\<close> in its first reply, for
  \<^verbatim>\<open>lookup\<close> in the next two, and then answers in plain text.
\<close>

definition flaky_replies :: "nat \<Rightarrow> string" where
  "flaky_replies n =
     (if n = 0 then invoke_params_text ''flaky''
      else if n = 2 \<or> n = 5 then invoke_params_text ''lookup''
      else ''Done.'')"

definition flaky_env :: env where
  "flaky_env = buffered_env flaky_replies"

section \<open>Observations on a round and on the passes of a call\<close>

text \<open>The events up to and including the first \<^verbatim>\<open>tool_error\<close>.\<close>

fun is_error :: "event \<Rightarrow> bool" where
  "is_error (ToolError t e) = True"
| "is_error ev = False"

fun until_error :: "event list \<Rightarrow> event list" where
  "until_error [] = []"
| "until_error (ev # evs) = (if is_error ev then [ev] else ev # until_error evs)"

text \<open>The names of the tools announced by \<^verbatim>\<open>tool_invoke\<close>, in order.\<close>

fun invoked_names :: "event list \<Rightarrow> jsval list" where
  "invoked_names [] = []"
| "invoked_names (ToolInvoke t # evs) = JStr (tool_name t) # invoked_names evs"
| "invoked_names (ev # evs) = invoked_names evs"

text \<open>
  The events that a round's \<^verbatim>\<open>invokeFunctions\<close> yields while the iterator of
  \<^verbatim>\<open>stream\<close> drives it.
\<close>

definition round_events :: "env \<Rightarrow> tool list \<Rightarrow> string \<Rightarrow> invocation list \<Rightarrow> nat \<Rightarrow> event list" where
  "round_events E tools tm fs n = yields (driven (fst (invokeFunctions E tools tm fs n)))"

text \<open>The tool calls of a buffered call, pass by pass; none when it did not end.\<close>

fun round_calls :: "(action list \<times> (error + result)) option \<Rightarrow> string list list" where
  "round_calls None = []"
| "round_calls (Some (acts, r)) = calls_by_round acts []"

text \<open>Every tool called in a pass is called again in every later pass.\<close>

fun reruns_all :: "string list list \<Rightarrow> bool" where
  "reruns_all [] = True"
| "reruns_all (r # rs) = (list_all (\<lambda>later. list_all (\<lambda>name. name \<in> set later) r) rs \<and> reruns_all rs)"

text \<open>
  The passes of the buffered loop, for a loop entered in the state \<open>st\<close> and run for
  at most \<open>k\<close> passes: the state in which each pass starts. A pass starts while the
  text has the start marker, and the next one starts in the state that the pass leaves
  when it neither throws nor returns.
\<close>

fun pass_starts ::
  "nat \<Rightarrow> env \<Rightarrow> bool \<Rightarrow> tool list \<Rightarrow> request \<Rightarrow> loop_state \<Rightarrow> loop_state list" where
  "pass_starts 0 E checked tools req st = []"
| "pass_starts (Suc k) E checked tools req st =
     (if \<not> includes_str (l_text st) start_marker then []
      else st # (case loop_body E checked tools req st of
                   (acts, Inr (Continue st')) \<Rightarrow> pass_starts k E checked tools req st'
                 | _ \<Rightarrow> []))"

text \<open>
  An invocation gets as far as the call of its function: it names a registered tool
  and its parameters pass validation.
\<close>

definition callable :: "bool \<Rightarrow> tool list \<Rightarrow> fn_call \<Rightarrow> bool" where
  "callable checked tools f =
     (case find_tool tools (fn_name f) of
        None \<Rightarrow> False
      | Some t \<Rightarrow>
         (case check_parameters checked t (fn_parameters f) of
            Inl e \<Rightarrow> False
          | Inr d \<Rightarrow> True))"

section \<open>Errors that the parts can raise\<close>

lemma processChunk_error: "processChunk ch c = Inl e \<Longrightarrow> e = TypeError"
  by (cases ch) (auto split: option.splits)

lemma process_stream_error: "process_stream chs c = (evs, Some e, c') \<Longrightarrow> e = TypeError"
proof (induction chs arbitrary: c evs c')
  case Nil
  then show ?case by simp
next
  case (Cons ch chs)
  then show ?case
    by (auto split: sum.splits prod.splits dest: processChunk_error)
qed

lemma resolve_chunks_error: "resolve_chunks chs c = (ys, Inl e) \<Longrightarrow> e = TypeError"
proof (induction chs arbitrary: c ys)
  case Nil
  then show ?case by simp
next
  case (Cons ch chs)
  then show ?case
    by (auto split: sum.splits prod.splits dest: processChunk_error)
qed

lemma get_prop_error: "get_prop v k = Inl e \<Longrightarrow> e = TypeError"
  by (cases v) auto

lemma call_record_error: "call_record v = Inl e \<Longrightarrow> e = TypeError"
  by (auto simp: call_record_def ebind_def split: sum.splits dest: get_prop_error)

lemma map_err_error: "map_err f xs = Inl e \<Longrightarrow> \<exists>x. f x = Inl e"
  by (induction xs) (auto split: sum.splits)

lemma calls_to_records_error: "calls_to_records v = Inl e \<Longrightarrow> e = TypeError"
  by (cases v) (auto simp: calls_to_records_def ebind_def split: sum.splits
      dest: call_record_error map_err_error)

lemma extractFunctionCalls_error:
  "extractFunctionCalls E text = Inl e \<Longrightarrow> e = TypeError \<or> e = InvocationParseError"
  by (auto simp: extractFunctionCalls_def ebind_def split: if_splits option.splits sum.splits
      dest: get_prop_error calls_to_records_error)

lemma invokeFunction_error: "invokeFunction E t tm ctx n = (steps, Some e, n') \<Longrightarrow> e = TypeError"
  by (auto simp: invokeFunction_def Let_def split: prod.splits sum.splits dest: resolve_chunks_error)

lemma invoke_loop_error:
  "invoke_loop E tools tm fs results fr n = (steps, Inl e, n') \<Longrightarrow> e \<noteq> StreamConsumed"
proof (induction fs arbitrary: results fr n steps n')
  case Nil
  then show ?case by simp
next
  case (Cons f fs)
  then show ?case
    by (auto split: option.splits prod.splits dest: invokeFunction_error)
qed

lemma invokeFunctions_error:
  "invokeFunctions E tools tm fs n = (steps, Some e, n') \<Longrightarrow> e \<noteq> StreamConsumed"
  by (auto simp: invokeFunctions_def split: prod.splits sum.splits dest: invoke_loop_error)

lemma tool_round_error: "tool_round E s text n = (acts, Some e) \<Longrightarrow> e \<noteq> StreamConsumed"
  by (auto simp: tool_round_def split: if_splits sum.splits prod.splits
      dest: extractFunctionCalls_error invokeFunctions_error)

lemma iterate_consumed: "consumed (snd (snd (iterate E s n)))"
  by (auto simp: iterate_def Let_def split: prod.splits option.splits)

section \<open>The parser and the two shapes of an invocation block\<close>

text \<open>
  A single invoke element gives the same one-element list whether or not it comes
  wrapped in a list.
\<close>

lemma single_invoke_both_shapes:
  "calls_to_records (JArr [JObj [(''invoke'', x)]]) = calls_to_records (JObj [(''invoke'', x)])"
  by (simp add: calls_to_records_def call_record_def ebind_def split: sum.splits)

lemma single_invoke_both_shapes_buffered:
  "map_err invoke_record (invokeArray (JArr [JObj [(''invoke'', x)]]))
     = map_err invoke_record (invokeArray (JObj [(''invoke'', x)]))"
  by (simp add: invokeArray_def)

text \<open>
  Repeated invoke elements arrive as an array under \<^verbatim>\<open>invoke\<close>, which is not an array
  at the level that \<^verbatim>\<open>Array.isArray\<close> looks at: whatever their number, one record
  comes out and its fields are \<^verbatim>\<open>undefined\<close>.
\<close>

lemma repeated_invokes_one_record:
  "calls_to_records (JObj [(''invoke'', JArr xs)])
     = Inr [\<lparr>fc_tool_name = JUndefined, fc_context = JUndefined\<rparr>]"
  by (simp add: calls_to_records_def call_record_def ebind_def)

lemma repeated_invokes_one_record_buffered:
  "map_err invoke_record (invokeArray (JObj [(''invoke'', JArr xs)]))
     = Inr [\<lparr>fn_name = JUndefined, fn_parameters = JObj []\<rparr>]"
  by (simp add: invokeArray_def invoke_record_def ebind_def)

text \<open>
  Claim C2. The parser is to give one record for each invoke element of a block. On
  the block \<open>two_invokes_text\<close>, with its two invoke elements, both parsers give a
  single record, with no tool name.
\<close>

theorem two_invokes_parse_to_one_record:
  "extractFunctionCalls (env_for two_invokes_text two_invokes_js) two_invokes_text
     = Inr [\<lparr>fc_tool_name = JUndefined, fc_context = JUndefined\<rparr>]
   \<and> parse_invocations (env_for two_invokes_text two_invokes_js) two_invokes_text
     = Inr [\<lparr>fn_name = JUndefined, fn_parameters = JObj []\<rparr>]"
proof -
  have "includes_str two_invokes_text start_marker"
    by (simp add: two_invokes_text_def text_lines_def start_marker_def startsWith_def)
  then show ?thesis
    by (simp add: extractFunctionCalls_def parse_invocations_def env_for_def two_invokes_js_def
        ebind_def repeated_invokes_one_record repeated_invokes_one_record_buffered)
qed

section \<open>Text without an invocation block\<close>

text \<open>
  Claim C9. When the assistant text has no start marker, the parser of the streamed
  mode returns the empty list, the iterator does nothing after the provider's stream
  (no parse, no tool, no further request), and the buffered loop returns at once
  without a tool call or a result block.
\<close>

theorem no_marker_no_invocations:
  "\<not> includes_str text start_marker \<Longrightarrow>
     extractFunctionCalls E text = Inr []
     \<and> tool_round E s text n = ([], None)
     \<and> turn_loop k E checked tools req (st\<lparr>l_text := text\<rparr>)
         = Some ([], Inr (finish (st\<lparr>l_text := text\<rparr>)))"
  by (cases k) (simp_all add: extractFunctionCalls_def tool_round_def)

theorem no_marker_no_invocations_witness:
  "\<not> includes_str ''The answer is 4.'' start_marker
   \<and> extractFunctionCalls (ex_env ''lookup'') ''The answer is 4.'' = Inr []
   \<and> tool_round (ex_env ''lookup'')
        (fst (stream (ex_env ''lookup'') (ex_body [lookup_tool]) 0))
        ''The answer is 4.'' 1 = ([], None)"
proof -
  have h: "\<not> includes_str ''The answer is 4.'' start_marker"
    by (simp add: start_marker_def startsWith_def)
  show ?thesis
    using h no_marker_no_invocations[OF h, of "ex_env ''lookup''"
        "fst (stream (ex_env ''lookup'') (ex_body [lookup_tool]) 0)" 1]
    by simp
qed

section \<open>The prompt and the stop sequences\<close>

lemma buffered_call_first_request:
  "buffered_call k E checked tools b n = Some (acts, r) \<Longrightarrow>
     \<exists>rest. acts = Request (buffered_request tools b) # rest"
  by (auto simp: buffered_call_def Let_def split: option.splits)

text \<open>
  The two requests as functions of the body. Without tools the system prompt of both
  is the caller's system text, empty when there is none; the buffered request keeps
  the caller's stop sequences and the streamed request has none at all.
\<close>

lemma prompt_without_tools:
  "system (stream_request (b\<lparr>b_tools := Some []\<rparr>)) = or_empty (b_system b)
   \<and> system (stream_request (b\<lparr>b_tools := None\<rparr>)) = or_empty (b_system b)
   \<and> system (buffered_request [] b) = or_empty (b_system b)
   \<and> stop_sequences (buffered_request [] b) = b_stop_sequences b
   \<and> stop_sequences (stream_request (b\<lparr>b_tools := Some []\<rparr>)) = Some []
   \<and> stop_sequences (stream_request (b\<lparr>b_tools := None\<rparr>)) = Some []"
  by (simp add: stream_request_def buffered_request_def buildSystemMessage_def
      build_system_v1_def stream_stop_sequences_def buffered_stop_sequences_def tools_of_def)

text \<open>
  With tools the prompt is the preamble, one description for each tool in the order of
  the tools, the closing tag of the catalog and the caller's system text last, and the
  closing marker of the invocation block follows the caller's stop sequences.
\<close>

lemma prompt_with_tools:
  "tools \<noteq> [] \<Longrightarrow>
     system (stream_request (b\<lparr>b_tools := Some tools\<rparr>)) =
       preamble_v2 @ concat (map tool_description_v2 tools) @ ''</tools>\<newline>''
         @ or_empty (b_system b)
     \<and> stop_sequences (stream_request (b\<lparr>b_tools := Some tools\<rparr>)) =
         Some ((case b_stop_sequences b of None \<Rightarrow> [] | Some xs \<Rightarrow> xs) @ [''</function_calls>''])
     \<and> system (buffered_request tools b) =
       preamble_v1 @ concat (map tool_description_v1 tools) @ ''</tools>\<newline>''
         @ or_empty (b_system b)
     \<and> stop_sequences (buffered_request tools b) =
         Some ((case b_stop_sequences b of None \<Rightarrow> [] | Some xs \<Rightarrow> xs) @ [''</function_calls>''])"
  by (simp add: stream_request_def buffered_request_def buildSystemMessage_def
      build_system_v1_def stream_stop_sequences_def buffered_stop_sequences_def tools_of_def
      text_lines_def end_marker_def)

text \<open>The text of the two preambles and of a description.\<close>

lemma preamble_texts:
  "preamble_v2 =
        ''In this environment you have access to a set of tools you can use to answer the user's questions.\<newline>'' @
        ''You will be given the name and description of each tool, and you just need to call the tool by name. Another model will handle calling the tool with the correct parameters. You MUST NOT write any parameters yourself.\<newline>'' @
        ''\<newline>'' @
        ''You may call one or more tools like this, the tools will be called in the order they are listed, but the result of each tool will NOT be passed to the next tool:\<newline>'' @
        ''<function_calls>\<newline>'' @
        ''<invoke>\<newline>'' @
        ''<tool_name>$TOOL_NAME</tool_name>\<newline>'' @
        ''<context>$ALL_NECESSARY_CONTEXT_TO_SEND_TO_THE_OTHER_MODEL</context>\<newline>'' @
        ''</invoke>\<newline>'' @
        ''<invoke>\<newline>'' @
        ''<tool_name>$TOOL_NAME</tool_name>\<newline>'' @
        ''<context>$ALL_NECESSARY_CONTEXT_TO_SEND_TO_THE_OTHER_MODEL</context>\<newline>'' @
        ''</invoke>\<newline>'' @
        ''...\<newline>'' @
        ''</function_calls>\<newline>'' @
        ''\<newline>'' @
        ''Here are the tools available:\<newline>'' @
        ''<tools>\<newline>''
   \<and> preamble_v1 =
        ''In this environment you have access to a set of tools you can use to answer the user's question.\<newline>'' @
        ''\<newline>'' @
        ''You may call them like this:\<newline>'' @
        ''<function_calls>\<newline>'' @
        ''<invoke>\<newline>'' @
        ''<tool_name>$TOOL_NAME</tool_name>\<newline>'' @
        ''<parameters>\<newline>'' @
        ''<$PARAMETER_NAME>$PARAMETER_VALUE</$PARAMETER_NAME>\<newline>'' @
        ''...\<newline>'' @
        ''</parameters>\<newline>'' @
        ''</invoke>\<newline>'' @
        ''</function_calls>\<newline>'' @
        ''\<newline>'' @
        ''Here are the tools available:\<newline>'' @
        ''<tools>\<newline>''"
  by (simp add: preamble_v2_def preamble_v1_def text_lines_def)

lemma descriptor_texts:
  "tool_description_v2 t =
     ''<tool_description>\<newline>'' @
     ''<name>'' @ tool_name t @ ''</name>\<newline>'' @
     ''<description>'' @ description t @ ''</description>\<newline>'' @
     ''</tool_description>\<newline>''
   \<and> tool_description_v1 t =
     ''<tool_description>\<newline>'' @
     ''<name>'' @ tool_name t @ ''</name>\<newline>'' @
     ''<description>'' @ description t @ ''</description>\<newline>'' @
     ''<parameters>\<newline>'' @
     concat (map param_xml (schema_props t)) @
     ''</parameters>\<newline>'' @
     ''</tool_description>\<newline>''
   \<and> param_xml (key, \<lparr>p_type = Some ty, p_description = Some d, p_items = None,
                         p_properties = None\<rparr>) =
     ''<parameter>\<newline>'' @
     ''<name>'' @ key @ ''</name>\<newline>'' @
     ''<type>'' @ ty @ ''</type>\<newline>'' @
     ''<description>'' @ d @ ''</description>\<newline>'' @
     ''</parameter>\<newline>''"
  by (simp add: tool_description_v2_def tool_description_v1_def param_xml_def template_def
      text_lines_def)

text \<open>
  The first request of a streamed and of a buffered call with two tools, the second
  with a parameter that has no description.
\<close>

lemma example_prompts:
  "requests_of (snd (stream (ex_env ''lookup'') (ex_body [lookup_tool, search_tool]) 0))
     = [\<lparr>model = ''m'',
         system =
           ''In this environment you have access to a set of tools you can use to answer the user's questions.\<newline>'' @
           ''You will be given the name and description of each tool, and you just need to call the tool by name. Another model will handle calling the tool with the correct parameters. You MUST NOT write any parameters yourself.\<newline>'' @
           ''\<newline>'' @
           ''You may call one or more tools like this, the tools will be called in the order they are listed, but the result of each tool will NOT be passed to the next tool:\<newline>'' @
           ''<function_calls>\<newline>'' @
           ''<invoke>\<newline>'' @
           ''<tool_name>$TOOL_NAME</tool_name>\<newline>'' @
           ''<context>$ALL_NECESSARY_CONTEXT_TO_SEND_TO_THE_OTHER_MODEL</context>\<newline>'' @
           ''</invoke>\<newline>'' @
           ''<invoke>\<newline>'' @
           ''<tool_name>$TOOL_NAME</tool_name>\<newline>'' @
           ''<context>$ALL_NECESSARY_CONTEXT_TO_SEND_TO_THE_OTHER_MODEL</context>\<newline>'' @
           ''</invoke>\<newline>'' @
           ''...\<newline>'' @
           ''</function_calls>\<newline>'' @
           ''\<newline>'' @
           ''Here are the tools available:\<newline>'' @
           ''<tools>\<newline>'' @
           ''<tool_description>\<newline>'' @
           ''<name>lookup</name>\<newline>'' @
           ''<description>a tool</description>\<newline>'' @
           ''</tool_description>\<newline>'' @
           ''<tool_description>\<newline>'' @
           ''<name>search</name>\<newline>'' @
           ''<description>finds pages</description>\<newline>'' @
           ''</tool_description>\<newline>'' @
           ''</tools>\<newline>'' @
           ''Be brief.'',
         messages = [\<lparr>role = User, content = Str ''hi''\<rparr>],
         stop_sequences = Some [''STOP'', ''</function_calls>''],
         max_tokens = 100, streaming = True\<rparr>]
   \<and> map_option (requests_of \<circ> fst)
        (runWithTools 0 (buffered_env (\<lambda>n. ''Done.'')) (ex_body [lookup_tool, search_tool]) 0)
     = Some [\<lparr>model = ''m'',
         system =
           ''In this environment you have access to a set of tools you can use to answer the user's question.\<newline>'' @
           ''\<newline>'' @
           ''You may call them like this:\<newline>'' @
           ''<function_calls>\<newline>'' @
           ''<invoke>\<newline>'' @
           ''<tool_name>$TOOL_NAME</tool_name>\<newline>'' @
           ''<parameters>\<newline>'' @
           ''<$PARAMETER_NAME>$PARAMETER_VALUE</$PARAMETER_NAME>\<newline>'' @
           ''...\<newline>'' @
           ''</parameters>\<newline>'' @
           ''</invoke>\<newline>'' @
           ''</function_calls>\<newline>'' @
           ''\<newline>'' @
           ''Here are the tools available:\<newline>'' @
           ''<tools>\<newline>'' @
           ''<tool_description>\<newline>'' @
           ''<name>lookup</name>\<newline>'' @
           ''<description>a tool</description>\<newline>'' @
           ''<parameters>\<newline>'' @
           ''</parameters>\<newline>'' @
           ''</tool_description>\<newline>'' @
           ''<tool_description>\<newline>'' @
           ''<name>search</name>\<newline>'' @
           ''<description>finds pages</description>\<newline>'' @
           ''<parameters>\<newline>'' @
           ''<parameter>\<newline>'' @
           ''<name>q</name>\<newline>'' @
           ''<type>string</type>\<newline>'' @
           ''<description>undefined</description>\<newline>'' @
           ''</parameter>\<newline>'' @
           ''</parameters>\<newline>'' @
           ''</tool_description>\<newline>'' @
           ''</tools>\<newline>'' @
           ''Be brief.'',
         messages = [\<lparr>role = User, content = Str ''hi''\<rparr>],
         stop_sequences = Some [''STOP'', ''</function_calls>''],
         max_tokens = 100, streaming = False\<rparr>]"
  by (simp add: stream_def stream_request_def runWithTools_def buffered_call_def
      buffered_request_def buildSystemMessage_def build_system_v1_def
      stream_stop_sequences_def buffered_stop_sequences_def tools_of_def ex_body_def
      preamble_v2_def preamble_v1_def tool_description_v2_def tool_description_v1_def
      param_xml_def template_def or_empty_def text_lines_def end_marker_def start_marker_def
      startsWith_def lookup_tool_def search_tool_def mk_tool_def buffered_env_def Let_def)

text \<open>
  Claim C7. Without tools the request's stop sequences are to be the caller's, not
  extended. On a call with no tools and the stop sequence \<^verbatim>\<open>STOP\<close>, the request
  that \<^verbatim>\<open>stream\<close> sends has the caller's system text as its prompt and the empty
  list of stop sequences: the caller's \<^verbatim>\<open>STOP\<close> is gone. The buffered call sends the
  caller's list on the same body, and so does the continuation request of the streamed
  mode.
\<close>

theorem streamed_call_without_tools_drops_stop_sequences:
  "tools_of (ex_body []) = []
   \<and> b_stop_sequences (ex_body []) = Some [''STOP'']
   \<and> snd (stream (ex_env ''lookup'') (ex_body []) 0)
       = [Request \<lparr>model = ''m'', system = ''Be brief.'',
                   messages = [\<lparr>role = User, content = Str ''hi''\<rparr>],
                   stop_sequences = Some [], max_tokens = 100, streaming = True\<rparr>]
   \<and> map_option (requests_of \<circ> fst)
        (runWithTools 0 (buffered_env (\<lambda>n. ''Done.'')) (ex_body []) 0)
       = Some [\<lparr>model = ''m'', system = ''Be brief.'',
                messages = [\<lparr>role = User, content = Str ''hi''\<rparr>],
                stop_sequences = Some [''STOP''], max_tokens = 100, streaming = False\<rparr>]
   \<and> stop_sequences (final_request (ex_body []) (b_messages (ex_body []))) = Some [''STOP'']"
  by (simp add: stream_def stream_request_def runWithTools_def buffered_call_def
      buffered_request_def buildSystemMessage_def build_system_v1_def
      stream_stop_sequences_def buffered_stop_sequences_def tools_of_def ex_body_def
      or_empty_def final_request_def start_marker_def startsWith_def buffered_env_def Let_def)

section \<open>The stream is consumed once\<close>

text \<open>
  Claim C8. The first iteration of a stream object is not refused: it re-emits the
  provider's events and goes on from there, and it never ends in the usage error.
  After it, every further iteration of the same object throws the usage error at once,
  with no request, no tool call and no event, and leaves the object as it was.
\<close>

theorem single_consumer:
  "(\<not> consumed s \<longrightarrow>
      fst (iterate E s n) \<noteq> Some StreamConsumed
      \<and> (\<exists>rest. fst (snd (iterate E s n)) =
            map (\<lambda>ch. Emit (Provider ch)) (fst (process_stream (s_stream s) (s_content s))) @ rest))
   \<and> iterate E (snd (snd (iterate E s n))) m
       = (Some StreamConsumed, [], snd (snd (iterate E s n)))"
proof -
  have guard: "iterate E s' m = (Some StreamConsumed, [], s')" if "consumed s'" for s'
    using that by (simp add: iterate_def)
  have first: "fst (iterate E s n) \<noteq> Some StreamConsumed" if "\<not> consumed s"
    using that
    by (auto simp: iterate_def Let_def split: prod.splits option.splits
        dest: process_stream_error tool_round_error)
  have body: "\<exists>rest. fst (snd (iterate E s n)) =
            map (\<lambda>ch. Emit (Provider ch)) (fst (process_stream (s_stream s) (s_content s))) @ rest"
    if "\<not> consumed s"
    using that by (auto simp: iterate_def Let_def split: prod.splits option.splits)
  show ?thesis
    using guard[OF iterate_consumed] first body by blast
qed

theorem single_consumer_witness:
  "\<not> consumed (fst (stream (ex_env ''lookup'') (ex_body [lookup_tool]) 0))
   \<and> fst (iterate (ex_env ''lookup'')
            (fst (stream (ex_env ''lookup'') (ex_body [lookup_tool]) 0)) 1)
       \<noteq> Some StreamConsumed
   \<and> fst (iterate (ex_env ''lookup'')
       (snd (snd (iterate (ex_env ''lookup'')
          (fst (stream (ex_env ''lookup'') (ex_body [lookup_tool]) 0)) 1))) 2)
       = Some StreamConsumed"
  using single_consumer[of "fst (stream (ex_env ''lookup'') (ex_body [lookup_tool]) 0)"
      "ex_env ''lookup''" 1 2]
  by (simp add: stream_def)

section \<open>Facts about the generators\<close>

lemma resolve_chunks_member: "resolve_chunks chs c = (ys, r) \<Longrightarrow> y \<in> set ys \<Longrightarrow> y = empty_obj"
proof (induction chs arbitrary: c ys r)
  case Nil
  then show ?case by simp
next
  case (Cons ch chs)
  show ?case
  proof (cases "processChunk ch c")
    case (Inl e)
    with Cons.prems show ?thesis by auto
  next
    case (Inr c')
    obtain ys' r' where rc: "resolve_chunks chs c' = (ys', r')"
      by (cases "resolve_chunks chs c'") auto
    with Inr Cons.prems have "ys = empty_obj # ys'" by simp
    with Cons.prems(2) Cons.IH[OF rc] show ?thesis by auto
  qed
qed

lemma resolve_chunks_empties: "resolve_chunks chs c = (ys, r) \<Longrightarrow> set ys \<subseteq> {empty_obj}"
  using resolve_chunks_member by blast

lemma consume_empties:
  "set ys \<subseteq> {empty_obj} \<Longrightarrow>
     consume_results E t (map Yield ys @ ss) results fr = consume_results E t ss results fr"
  by (induction ys) (auto simp: empty_obj_def)

lemma consume_empties_only:
  "set ys \<subseteq> {empty_obj} \<Longrightarrow> consume_results E t (map Yield ys) results fr = ([], results, fr)"
  using consume_empties[of ys E t "[]" results fr] by simp

lemma invoke_loop_append:
  "invoke_loop E tools tm (pre @ rest) results fr n =
     (case invoke_loop E tools tm pre results fr n of
        (steps, Inl e, n') \<Rightarrow> (steps, Inl e, n')
      | (steps, Inr (rs, fr'), n') \<Rightarrow>
          (case invoke_loop E tools tm rest rs fr' n' of
             (steps2, out, n'') \<Rightarrow> (steps @ steps2, out, n'')))"
proof (induction pre arbitrary: results fr n)
  case Nil
  then show ?case by (simp split: prod.splits)
next
  case (Cons f pre)
  show ?case
    by (simp add: Cons.IH split: option.splits prod.splits sum.splits)
qed

lemma yields_append: "yields (ss @ ts) = yields ss @ yields ts"
  by (induction ss rule: yields.induct) auto

lemma run_functions_append:
  "runs_through E c tools pre n \<Longrightarrow>
     run_functions E c tools (pre @ rest) fr n =
       (case run_functions E c tools pre fr n of
          (acts, Inl e, n') \<Rightarrow> (acts, Inl e, n')
        | (acts, Inr fr', n') \<Rightarrow>
            (case run_functions E c tools rest fr' n' of
               (acts2, out2, n'') \<Rightarrow> (acts @ acts2, out2, n'')))"
proof (induction pre arbitrary: fr n)
  case Nil
  then show ?case by (simp add: split_def)
next
  case (Cons f pre)
  from Cons.prems obtain t d v where
    t: "find_tool tools (fn_name f) = Some t"
    and d: "check_parameters c t (fn_parameters f) = Inr d"
    and v: "func t n d = Inr v"
    and rest: "runs_through E c tools pre (Suc n)"
    by (auto split: option.splits sum.splits)
  show ?case
    by (simp add: t d v Cons.IH[OF rest] split_def split: sum.splits)
qed

lemma run_functions_through:
  "runs_through E c tools pre n \<Longrightarrow>
     \<exists>acts fr'. run_functions E c tools pre fr n = (acts, Inr fr', n + length pre)"
proof (induction pre arbitrary: fr n)
  case Nil
  then show ?case by simp
next
  case (Cons f pre)
  from Cons.prems obtain t d v where
    t: "find_tool tools (fn_name f) = Some t"
    and d: "check_parameters c t (fn_parameters f) = Inr d"
    and v: "func t n d = Inr v"
    and rest: "runs_through E c tools pre (Suc n)"
    by (auto split: option.splits sum.splits)
  from Cons.IH[OF rest, of "fr @ fragment E c (tool_name t) v"] show ?case
    by (auto simp: t d v)
qed

lemma run_functions_no_request: "requests_of (fst (run_functions E c tools fs fr n)) = []"
  by (induction fs arbitrary: fr n) (auto simp: split_def split: option.splits sum.splits)

lemma consume_results_yields:
  "ev \<in> set (yields (fst (consume_results E t ss results fr))) \<Longrightarrow> is_outcome ev"
  by (induction E t ss results fr rule: consume_results.induct)
    (auto simp: split_def split: if_splits)

lemma invoke_loop_yields:
  "ev \<in> set (yields (fst (invoke_loop E tools tm fs results fr n))) \<Longrightarrow> is_invoke ev \<or> is_outcome ev"
proof (induction fs arbitrary: results fr n)
  case Nil
  then show ?case by simp
next
  case (Cons f fs)
  then show ?case
    by (auto simp: split_def yields_append split: option.splits dest: consume_results_yields)
qed

lemma invokeFunction_acts:
  "Act a \<in> set (fst (invokeFunction E t tm ctx n)) \<Longrightarrow> is_external a"
  by (auto simp: invokeFunction_def Let_def split_def split: sum.splits)

lemma consume_results_acts:
  "Act a \<in> set (fst (consume_results E t ss results fr)) \<Longrightarrow> Act a \<in> set ss"
  by (induction E t ss results fr rule: consume_results.induct)
    (auto simp: split_def split: if_splits)

lemma invoke_loop_acts:
  "Act a \<in> set (fst (invoke_loop E tools tm fs results fr n)) \<Longrightarrow> is_external a"
proof (induction fs arbitrary: results fr n)
  case Nil
  then show ?case by simp
next
  case (Cons f fs)
  then show ?case
    by (auto simp: split_def split: option.splits
        dest: consume_results_acts invokeFunction_acts)
qed

lemma forward_emitted:
  "ev \<in> set (emitted (fst (forward ss))) \<Longrightarrow> ev \<in> set (yields ss) \<or> Act (Emit ev) \<in> set ss"
proof (induction ss rule: forward.induct)
  case (2 a ss)
  then show ?case by (cases a) (auto simp: split_def)
qed (auto simp: split_def)

lemma invoke_loop_no_results:
  "filter is_results (emitted (fst (forward (fst (invoke_loop E tools tm fs results fr n))))) = []"
proof -
  have "\<not> is_results ev" if "is_invoke ev \<or> is_outcome ev" for ev
    using that by (cases ev) auto
  moreover have "ev \<in> set (yields (fst (invoke_loop E tools tm fs results fr n)))"
    if "ev \<in> set (emitted (fst (forward (fst (invoke_loop E tools tm fs results fr n)))))" for ev
    using forward_emitted[OF that] invoke_loop_acts[of "Emit ev" E tools tm fs results fr n]
    by auto
  ultimately show ?thesis
    using invoke_loop_yields by (fastforce simp: filter_empty_conv)
qed

section \<open>A tool that resolves with \<^verbatim>\<open>undefined\<close>\<close>

text \<open>
  Claim C10. In streamed mode, when the tool of an invocation is registered, its
  parameters are resolved and validated, and its function resolves with
  \<^verbatim>\<open>undefined\<close>, the round yields \<^verbatim>\<open>tool_invoke\<close>, makes the resolver's request and
  the tool call, and yields neither \<^verbatim>\<open>tool_result\<close> nor \<^verbatim>\<open>tool_error\<close>; it goes on
  with the next invocation from the same results map and the same accumulator.
\<close>

theorem undefined_result_is_silent:
  assumes "find_tool tools (fc_tool_name f) = Some t"
    and "resolve_chunks (create_stream E n (resolver_request t tm (fc_context f))) [] = (ys, Inr c)"
    and "json_parse E (join_text c) = Inr js"
    and "parameters t js = Inr d"
    and "func t (Suc n) d = Inr JUndefined"
  shows "invoke_loop E tools tm (f # fs) results fr n =
           (case invoke_loop E tools tm fs results fr (Suc (Suc n)) of
              (rest, out, n') \<Rightarrow>
                (Yield (ToolInvoke t) # Act (Request (resolver_request t tm (fc_context f)))
                   # Act (CallTool (tool_name t) d) # rest, out, n'))"
proof -
  have e: "set ys \<subseteq> {empty_obj}"
    using assms(2) by (rule resolve_chunks_empties)
  have inv: "invokeFunction E t tm (fc_context f) n =
      (Act (Request (resolver_request t tm (fc_context f))) # map Yield ys
         @ [Act (CallTool (tool_name t) d), Yield \<lparr>y_data = JUndefined, y_error = JUndefined\<rparr>],
       None, Suc (Suc n))"
    using assms by (simp add: invokeFunction_def)
  have con: "consume_results E t (Act (Request (resolver_request t tm (fc_context f))) # map Yield ys
         @ [Act (CallTool (tool_name t) d), Yield \<lparr>y_data = JUndefined, y_error = JUndefined\<rparr>])
         results fr =
      ([Act (Request (resolver_request t tm (fc_context f))), Act (CallTool (tool_name t) d)],
       results, fr)"
    using e by (simp add: consume_empties)
  show ?thesis
    using assms(1) inv con by (simp split: prod.splits)
qed

theorem undefined_result_is_silent_witness:
  "find_tool [silent_tool] (JStr ''silent'') = Some silent_tool
   \<and> func silent_tool 2 (JObj []) = Inr JUndefined
   \<and> invoke_loop (ex_env ''silent'') [silent_tool] ''m''
        [\<lparr>fc_tool_name = JStr ''silent'', fc_context = JStr ''go''\<rparr>] Map.empty results_open 1
      = ([Yield (ToolInvoke silent_tool),
          Act (Request (resolver_request silent_tool ''m'' (JStr ''go''))),
          Act (CallTool ''silent'' (JObj []))],
         Inr (Map.empty, results_open), 3)"
proof -
  let ?E = "ex_env ''silent''"
  let ?f = "\<lparr>fc_tool_name = JStr ''silent'', fc_context = JStr ''go''\<rparr>"
  have h1: "find_tool [silent_tool] (fc_tool_name ?f) = Some silent_tool"
    by (simp add: find_tool_def silent_tool_def mk_tool_def)
  have h2: "resolve_chunks (create_stream ?E 1 (resolver_request silent_tool ''m'' (fc_context ?f))) []
      = ([empty_obj], Inr [Some ''{}''])"
    by (simp add: ex_env_def env_for_def resolver_request_def set_idx_def)
  have h3: "json_parse ?E (join_text [Some ''{}'']) = Inr (JObj [])"
    by (simp add: ex_env_def env_for_def)
  have h4: "parameters silent_tool (JObj []) = Inr (JObj [])"
    by (simp add: silent_tool_def mk_tool_def)
  have h5: "func silent_tool (Suc 1) (JObj []) = Inr JUndefined"
    by (simp add: silent_tool_def mk_tool_def)
  have name: "tool_name silent_tool = ''silent''"
    by (simp add: silent_tool_def mk_tool_def)
  have run: "invoke_loop ?E [silent_tool] ''m'' [?f] Map.empty results_open 1
      = ([Yield (ToolInvoke silent_tool),
          Act (Request (resolver_request silent_tool ''m'' (JStr ''go''))),
          Act (CallTool ''silent'' (JObj []))],
         Inr (Map.empty, results_open), 3)"
    by (subst undefined_result_is_silent[OF h1 h2 h3 h4 h5]) (simp add: name)
  have g1: "find_tool [silent_tool] (JStr ''silent'') = Some silent_tool"
    using h1 by simp
  have g2: "func silent_tool 2 (JObj []) = Inr JUndefined"
    by (simp add: silent_tool_def mk_tool_def)
  show ?thesis
    using g1 g2 run by blast
qed

section \<open>An invocation that names no registered tool\<close>

text \<open>
  Claim C6. Buffered mode: when a pass of the loop gets through the invocations before
  one that names no registered tool, the call ends with the tool-not-found error; the
  pass has made the tool calls before it and sends no request, so no result block
  carries the failure. Streamed mode: when the round reaches such an invocation (the
  invocations before it are done and the iterator has not left its loop), the
  iteration throws the tool-not-found error and aborts the provider's stream; no
  \<^verbatim>\<open>tool_results\<close> event, which would carry the result block, was emitted.
\<close>

theorem unknown_tool_aborts_call:
  "(includes_str (l_text st) start_marker
      \<and> parse_invocations E (l_text st) = Inr new
      \<and> l_functions st @ new = pre @ f # post
      \<and> runs_through E checked tools pre (l_time st)
      \<and> find_tool tools (fn_name f) = None
    \<longrightarrow> turn_loop (Suc k) E checked tools req st
          = Some (fst (run_functions E checked tools pre results_open (l_time st)),
                  Inl (ToolNotFound (fn_name f)))
        \<and> requests_of (fst (run_functions E checked tools pre results_open (l_time st))) = [])
   \<and> (\<not> consumed s
      \<and> process_stream (s_stream s) (s_content s) = (chs, None, c)
      \<and> get_idx c 0 = Some reply
      \<and> includes_str reply start_marker
      \<and> extractFunctionCalls E reply = Inr (pre' @ f' # post')
      \<and> invoke_loop E (s_tools s) (s_tools_model s) pre' Map.empty results_open n
           = (steps, Inr (rs, fr), n')
      \<and> \<not> snd (forward steps)
      \<and> find_tool (s_tools s) (fc_tool_name f') = None
    \<longrightarrow> iterate E s n
          = (Some (ToolNotFound (invocation_obj f')),
             map (\<lambda>ch. Emit (Provider ch)) chs @ fst (forward steps) @ [Abort],
             s\<lparr>s_content := c, consumed := True\<rparr>)
        \<and> filter is_results (emitted (fst (forward steps))) = [])"
proof (intro conjI impI)
  assume a: "includes_str (l_text st) start_marker
      \<and> parse_invocations E (l_text st) = Inr new
      \<and> l_functions st @ new = pre @ f # post
      \<and> runs_through E checked tools pre (l_time st)
      \<and> find_tool tools (fn_name f) = None"
  obtain acts fr1 n1 where
    pre: "run_functions E checked tools pre results_open (l_time st) = (acts, Inr fr1, n1)"
    using a run_functions_through by blast
  have "run_functions E checked tools (pre @ f # post) results_open (l_time st)
      = (acts, Inl (ToolNotFound (fn_name f)), n1)"
    using a pre by (simp add: run_functions_append)
  then have "loop_body E checked tools req st = (acts, Inl (ToolNotFound (fn_name f)))"
    using a by (simp add: loop_body_def Let_def)
  then show "turn_loop (Suc k) E checked tools req st
          = Some (fst (run_functions E checked tools pre results_open (l_time st)),
                  Inl (ToolNotFound (fn_name f)))"
    using a pre by simp
  show "requests_of (fst (run_functions E checked tools pre results_open (l_time st))) = []"
    by (rule run_functions_no_request)
next
  assume b: "\<not> consumed s
      \<and> process_stream (s_stream s) (s_content s) = (chs, None, c)
      \<and> get_idx c 0 = Some reply
      \<and> includes_str reply start_marker
      \<and> extractFunctionCalls E reply = Inr (pre' @ f' # post')
      \<and> invoke_loop E (s_tools s) (s_tools_model s) pre' Map.empty results_open n
           = (steps, Inr (rs, fr), n')
      \<and> \<not> snd (forward steps)
      \<and> find_tool (s_tools s) (fc_tool_name f') = None"
  have "invoke_loop E (s_tools s) (s_tools_model s) (pre' @ f' # post') Map.empty results_open n
      = (steps, Inl (ToolNotFound (invocation_obj f')), n')"
    using b by (simp add: invoke_loop_append)
  then have "invokeFunctions E (s_tools s) (s_tools_model s) (pre' @ f' # post') n
      = (steps, Some (ToolNotFound (invocation_obj f')), n')"
    by (simp add: invokeFunctions_def)
  then have "tool_round E (s\<lparr>s_content := c, consumed := True\<rparr>) reply n
      = (fst (forward steps), Some (ToolNotFound (invocation_obj f')))"
    using b by (simp add: tool_round_def split_def)
  then show "iterate E s n
          = (Some (ToolNotFound (invocation_obj f')),
             map (\<lambda>ch. Emit (Provider ch)) chs @ fst (forward steps) @ [Abort],
             s\<lparr>s_content := c, consumed := True\<rparr>)"
    using b by (simp add: iterate_def Let_def)
  show "filter is_results (emitted (fst (forward steps))) = []"
    using b invoke_loop_no_results[of E "s_tools s" "s_tools_model s" pre' Map.empty results_open n]
    by simp
qed

theorem unknown_tool_aborts_call_witness:
  "find_tool [lookup_tool] (JStr ''missing'') = None
   \<and> turn_loop 1 (buffered_env (\<lambda>n. ''Done.'')) True [lookup_tool]
        (buffered_request [lookup_tool] (ex_body [lookup_tool]))
        \<lparr>l_text = invoke_params_text ''missing'', l_first = False,
         l_functions = [\<lparr>fn_name = JStr ''lookup'', fn_parameters = JObj [(''q'', JStr ''x'')]\<rparr>],
         l_messages = [], l_response = [TextBlock (invoke_params_text ''missing'')], l_time = 3\<rparr>
      = Some ([CallTool ''lookup'' (JObj [(''q'', JStr ''x'')])],
              Inl (ToolNotFound (JStr ''missing'')))
   \<and> iterate (ex_env ''missing'') (fst (stream (ex_env ''missing'') (ex_body [lookup_tool]) 0)) 1
      = (Some (ToolNotFound (JObj [(''tool_name'', JStr ''missing''), (''context'', JStr ''go'')])),
         [Emit (Provider (ContentBlockStart 0 (invoke_text ''missing''))), Abort],
         (fst (stream (ex_env ''missing'') (ex_body [lookup_tool]) 0))
           \<lparr>s_content := [Some (invoke_text ''missing'')], consumed := True\<rparr>)"
proof -
  let ?B = "buffered_env (\<lambda>n. ''Done.'')"
  let ?p = "\<lparr>fn_name = JStr ''lookup'', fn_parameters = JObj [(''q'', JStr ''x'')]\<rparr>"
  let ?f = "\<lparr>fn_name = JStr ''missing'', fn_parameters = JObj [(''q'', JStr ''x'')]\<rparr>"
  let ?st = "\<lparr>l_text = invoke_params_text ''missing'', l_first = False, l_functions = [?p],
         l_messages = [], l_response = [TextBlock (invoke_params_text ''missing'')], l_time = 3\<rparr>"
  let ?E = "ex_env ''missing''"
  let ?s = "fst (stream ?E (ex_body [lookup_tool]) 0)"
  let ?g = "\<lparr>fc_tool_name = JStr ''missing'', fc_context = JStr ''go''\<rparr>"
  have marker_b: "includes_str (invoke_params_text ''missing'') start_marker"
    by (simp add: invoke_params_text_def text_lines_def start_marker_def startsWith_def)
  have marker_s: "includes_str (invoke_text ''missing'') start_marker"
    by (simp add: invoke_text_def text_lines_def start_marker_def startsWith_def)
  have found: "find_tool [lookup_tool] (JStr ''lookup'') = Some lookup_tool"
    by (simp add: find_tool_def lookup_tool_def mk_tool_def)
  have missing: "find_tool [lookup_tool] (JStr ''missing'') = None"
    by (simp add: find_tool_def lookup_tool_def mk_tool_def)
  have named: "named_in (wrap_block (invoke_params_text ''missing'')) = ''missing''"
    by (simp add: named_in_def wrap_block_def split_second_def template_def invoke_params_text_def
        text_lines_def start_marker_def end_marker_def startsWith_def)
  have b1: "parse_invocations ?B (l_text ?st) = Inr [?f]"
    by (simp add: parse_invocations_def buffered_env_def named invoke_params_js_def
        invokeArray_def invoke_record_def ebind_def)
  have b2: "runs_through ?B True [lookup_tool] [?p] (l_time ?st)"
    by (simp add: found check_parameters_def) (simp add: lookup_tool_def mk_tool_def)
  have b3: "fst (run_functions ?B True [lookup_tool] [?p] results_open (l_time ?st))
      = [CallTool ''lookup'' (JObj [(''q'', JStr ''x'')])]"
    by (simp add: found check_parameters_def) (simp add: lookup_tool_def mk_tool_def)
  have s1: "\<not> consumed ?s"
    by (simp add: stream_def)
  have s2: "process_stream (s_stream ?s) (s_content ?s)
      = ([ContentBlockStart 0 (invoke_text ''missing'')], None, [Some (invoke_text ''missing'')])"
    by (simp add: stream_def ex_env_def env_for_def set_idx_def)
  have s3: "get_idx [Some (invoke_text ''missing'')] 0 = Some (invoke_text ''missing'')"
    by (simp add: get_idx_def)
  have s4: "extractFunctionCalls ?E (invoke_text ''missing'') = Inr ([] @ ?g # [])"
    using marker_s
    by (simp add: extractFunctionCalls_def ex_env_def env_for_def invoke_js_def invoke_fields_def
        calls_to_records_def call_record_def ebind_def)
  have s5: "invoke_loop ?E (s_tools ?s) (s_tools_model ?s) [] Map.empty results_open 1
      = ([], Inr (Map.empty, results_open), 1)"
    by simp
  have s6: "\<not> snd (forward [])"
    by simp
  have s7: "find_tool (s_tools ?s) (fc_tool_name ?g) = None"
    using missing by (simp add: stream_def tools_of_def ex_body_def)
  note T = unknown_tool_aborts_call[where st = ?st and E = ?B and new = "[?f]"
      and pre = "[?p]" and f = ?f and post = "[]" and checked = True and tools = "[lookup_tool]"
      and k = 0 and req = "buffered_request [lookup_tool] (ex_body [lookup_tool])"]
  have buffered: "turn_loop 1 ?B True [lookup_tool]
        (buffered_request [lookup_tool] (ex_body [lookup_tool])) ?st
      = Some ([CallTool ''lookup'' (JObj [(''q'', JStr ''x'')])],
              Inl (ToolNotFound (JStr ''missing'')))"
    using T marker_b b1 b2 b3 missing by simp
  note U = unknown_tool_aborts_call[where s = ?s and E = ?E and reply = "invoke_text ''missing''"
      and pre' = "[]" and f' = ?g and post' = "[]" and n = 1 and steps = "[]"
      and chs = "[ContentBlockStart 0 (invoke_text ''missing'')]"
      and c = "[Some (invoke_text ''missing'')]"
      and rs = Map.empty and fr = results_open and n' = 1]
  have streamed: "iterate ?E ?s 1
      = (Some (ToolNotFound (invocation_obj ?g)),
         [Emit (Provider (ContentBlockStart 0 (invoke_text ''missing''))), Abort],
         ?s\<lparr>s_content := [Some (invoke_text ''missing'')], consumed := True\<rparr>)"
    using U s1 s2 s3 s4 s5 s6 s7 marker_s by simp
  show ?thesis
    using missing buffered streamed by (simp add: invocation_obj_def)
qed

section \<open>The events of a round\<close>

text \<open>
  The iterator does with the driven steps what it does with all the steps of the
  round, and the events among the driven steps are those up to the first
  \<^verbatim>\<open>tool_error\<close>.
\<close>

lemma yields_driven: "yields (driven ss) = until_error (yields ss)"
  by (induction ss rule: driven.induct) auto

lemma forward_driven: "forward (driven ss) = forward ss"
  by (induction ss rule: driven.induct) (auto simp: split_def)

lemma until_error_append:
  "until_error (xs @ ys) = (if list_ex is_error xs then until_error xs else xs @ until_error ys)"
  by (induction xs) auto

lemma at_most_one_weaken: "at_most_one_outcome False evs \<Longrightarrow> at_most_one_outcome True evs"
  by (induction evs) auto

lemma count_invokes_until_error: "count_invokes (until_error evs) \<le> count_invokes evs"
  by (induction evs) (auto simp: count_invokes_def)

lemma find_tool_name: "find_tool tools name = Some t \<Longrightarrow> JStr (tool_name t) = name"
  by (auto simp: find_tool_def find_Some_iff)

text \<open>What one invocation yields after its \<^verbatim>\<open>tool_invoke\<close>: nothing, or one outcome.\<close>

lemma consume_single:
  "yields (fst (consume_results E t [Yield y] results fr)) = []
   \<or> (\<exists>v. yields (fst (consume_results E t [Yield y] results fr)) = [ToolResult t v])
   \<or> (\<exists>e. yields (fst (consume_results E t [Yield y] results fr)) = [ToolError t e])"
  by auto

lemma consume_act: "yields (fst (consume_results E t (Act a # ss) results fr))
    = yields (fst (consume_results E t ss results fr))"
  by (simp add: split_def)

lemma outcome_shape:
  "yields (fst (consume_results E t (fst (invokeFunction E t tm ctx n)) results fr)) = []
   \<or> (\<exists>v. yields (fst (consume_results E t (fst (invokeFunction E t tm ctx n)) results fr))
          = [ToolResult t v])
   \<or> (\<exists>e. yields (fst (consume_results E t (fst (invokeFunction E t tm ctx n)) results fr))
          = [ToolError t e])"
proof -
  obtain ys r where rc:
    "resolve_chunks (create_stream E n (resolver_request t tm ctx)) [] = (ys, r)"
    by (cases "resolve_chunks (create_stream E n (resolver_request t tm ctx)) []") auto
  then have e: "set ys \<subseteq> {empty_obj}"
    by (rule resolve_chunks_empties)
  show ?thesis
    using consume_single[of E t _ results fr]
    by (auto simp: invokeFunction_def Let_def rc consume_act consume_empties[OF e]
        consume_empties_only[OF e] split: sum.splits)
qed

lemma invoke_loop_Cons_yields:
  assumes "find_tool tools (fc_tool_name f) = Some t"
  shows "\<exists>outs. (outs = [] \<or> (\<exists>v. outs = [ToolResult t v]) \<or> (\<exists>e. outs = [ToolError t e]))
      \<and> ((yields (fst (invoke_loop E tools tm (f # fs) results fr n)) = ToolInvoke t # outs
           \<and> (\<exists>e. fst (snd (invoke_loop E tools tm (f # fs) results fr n)) = Inl e))
         \<or> (\<exists>rs fr1 n1.
              yields (fst (invoke_loop E tools tm (f # fs) results fr n))
                = ToolInvoke t # outs @ yields (fst (invoke_loop E tools tm fs rs fr1 n1))
              \<and> fst (snd (invoke_loop E tools tm (f # fs) results fr n))
                = fst (snd (invoke_loop E tools tm fs rs fr1 n1))))"
proof -
  let ?outs = "yields (fst (consume_results E t (fst (invokeFunction E t tm (fc_context f) n)) results fr))"
  have shape: "?outs = [] \<or> (\<exists>v. ?outs = [ToolResult t v]) \<or> (\<exists>e. ?outs = [ToolError t e])"
    by (rule outcome_shape)
  show ?thesis
  proof (cases "fst (snd (invokeFunction E t tm (fc_context f) n))")
    case None
    then have "\<exists>rs fr1 n1.
              yields (fst (invoke_loop E tools tm (f # fs) results fr n))
                = ToolInvoke t # ?outs @ yields (fst (invoke_loop E tools tm fs rs fr1 n1))
              \<and> fst (snd (invoke_loop E tools tm (f # fs) results fr n))
                = fst (snd (invoke_loop E tools tm fs rs fr1 n1))"
      using assms by (auto simp: split_def yields_append)
    with shape show ?thesis by blast
  next
    case (Some e)
    then have "yields (fst (invoke_loop E tools tm (f # fs) results fr n)) = ToolInvoke t # ?outs
           \<and> (\<exists>e. fst (snd (invoke_loop E tools tm (f # fs) results fr n)) = Inl e)"
      using assms by (auto simp: split_def)
    with shape show ?thesis by blast
  qed
qed

lemma invoke_loop_count:
  "count_invokes (yields (fst (invoke_loop E tools tm fs results fr n))) \<le> length fs
   \<and> (\<forall>x. fst (snd (invoke_loop E tools tm fs results fr n)) = Inr x \<longrightarrow>
        count_invokes (yields (fst (invoke_loop E tools tm fs results fr n))) = length fs)"
proof (induction fs arbitrary: results fr n)
  case Nil
  then show ?case by (simp add: count_invokes_def)
next
  case (Cons f fs)
  show ?case
  proof (cases "find_tool tools (fc_tool_name f)")
    case None
    then show ?thesis by (simp add: count_invokes_def)
  next
    case (Some t)
    from invoke_loop_Cons_yields[OF Some, of E tm fs results fr n] Cons.IH
    show ?thesis
      by (fastforce simp: count_invokes_def)
  qed
qed

lemma invoke_loop_order:
  "take (count_invokes (yields (fst (invoke_loop E tools tm fs results fr n)))) (map fc_tool_name fs)
     = invoked_names (yields (fst (invoke_loop E tools tm fs results fr n)))"
proof (induction fs arbitrary: results fr n)
  case Nil
  then show ?case by (simp add: count_invokes_def)
next
  case (Cons f fs)
  show ?case
  proof (cases "find_tool tools (fc_tool_name f)")
    case None
    then show ?thesis by (simp add: count_invokes_def)
  next
    case (Some t)
    have name: "fc_tool_name f = JStr (tool_name t)"
      using find_tool_name[OF Some] by simp
    have app: "invoked_names (outs @ evs) = invoked_names evs"
        "count_invokes (outs @ evs) = count_invokes evs"
      if "outs = [] \<or> (\<exists>v. outs = [ToolResult t v]) \<or> (\<exists>e. outs = [ToolError t e])"
      for outs evs
      using that by (auto simp: count_invokes_def)
    from invoke_loop_Cons_yields[OF Some, of E tm fs results fr n]
    obtain outs where
      outs: "outs = [] \<or> (\<exists>v. outs = [ToolResult t v]) \<or> (\<exists>e. outs = [ToolError t e])"
      and alt: "yields (fst (invoke_loop E tools tm (f # fs) results fr n)) = ToolInvoke t # outs
         \<or> (\<exists>rs fr1 n1. yields (fst (invoke_loop E tools tm (f # fs) results fr n))
                = ToolInvoke t # outs @ yields (fst (invoke_loop E tools tm fs rs fr1 n1)))"
      by blast
    from alt show ?thesis
    proof
      assume y: "yields (fst (invoke_loop E tools tm (f # fs) results fr n)) = ToolInvoke t # outs"
      show ?thesis
        unfolding y using app[OF outs, of "[]"] by (simp add: name count_invokes_def)
    next
      assume "\<exists>rs fr1 n1. yields (fst (invoke_loop E tools tm (f # fs) results fr n))
                = ToolInvoke t # outs @ yields (fst (invoke_loop E tools tm fs rs fr1 n1))"
      then obtain rs fr1 n1 where
        y: "yields (fst (invoke_loop E tools tm (f # fs) results fr n))
                = ToolInvoke t # outs @ yields (fst (invoke_loop E tools tm fs rs fr1 n1))"
        by blast
      have c: "count_invokes (ToolInvoke t # outs @ yields (fst (invoke_loop E tools tm fs rs fr1 n1)))
          = Suc (count_invokes (yields (fst (invoke_loop E tools tm fs rs fr1 n1))))"
        using app(2)[OF outs] by (simp add: count_invokes_def)
      show ?thesis
        unfolding y c using Cons.IH[of rs fr1 n1] app(1)[OF outs]
        by (simp add: name)
    qed
  qed
qed

lemma invoke_loop_discipline:
  "at_most_one_outcome False (until_error (yields (fst (invoke_loop E tools tm fs results fr n))))"
proof (induction fs arbitrary: results fr n)
  case Nil
  then show ?case by simp
next
  case (Cons f fs)
  show ?case
  proof (cases "find_tool tools (fc_tool_name f)")
    case None
    then show ?thesis by simp
  next
    case (Some t)
    from invoke_loop_Cons_yields[OF Some, of E tm fs results fr n]
    obtain outs where
      outs: "outs = [] \<or> (\<exists>v. outs = [ToolResult t v]) \<or> (\<exists>e. outs = [ToolError t e])"
      and alt: "yields (fst (invoke_loop E tools tm (f # fs) results fr n)) = ToolInvoke t # outs
         \<or> (\<exists>rs fr1 n1. yields (fst (invoke_loop E tools tm (f # fs) results fr n))
                = ToolInvoke t # outs @ yields (fst (invoke_loop E tools tm fs rs fr1 n1)))"
      by blast
    from alt show ?thesis
    proof
      assume y: "yields (fst (invoke_loop E tools tm (f # fs) results fr n)) = ToolInvoke t # outs"
      show ?thesis
        unfolding y using outs by auto
    next
      assume "\<exists>rs fr1 n1. yields (fst (invoke_loop E tools tm (f # fs) results fr n))
                = ToolInvoke t # outs @ yields (fst (invoke_loop E tools tm fs rs fr1 n1))"
      then obtain rs fr1 n1 where
        y: "yields (fst (invoke_loop E tools tm (f # fs) results fr n))
                = ToolInvoke t # outs @ yields (fst (invoke_loop E tools tm fs rs fr1 n1))"
        by blast
      show ?thesis
        unfolding y using outs Cons.IH[of rs fr1 n1] at_most_one_weaken
        by (auto simp: until_error_append)
    qed
  qed
qed

lemma until_error_id: "\<not> list_ex is_error evs \<Longrightarrow> until_error evs = evs"
  by (induction evs) auto

lemma set_until_error: "set (until_error evs) \<subseteq> set evs"
  by (induction evs) auto

lemma length_invoked: "length (invoked_names evs) = count_invokes evs"
  by (induction evs rule: invoked_names.induct) (auto simp: count_invokes_def)

lemma invoked_until:
  "invoked_names (until_error evs) = take (count_invokes (until_error evs)) (invoked_names evs)"
proof (induction evs)
  case Nil
  then show ?case by (simp add: count_invokes_def)
next
  case (Cons ev evs)
  then show ?case by (cases ev) (auto simp: count_invokes_def)
qed

lemma at_most_one_snoc:
  "is_results r \<Longrightarrow> at_most_one_outcome b (evs @ [r]) = at_most_one_outcome b evs"
proof (induction evs arbitrary: b)
  case Nil
  then show ?case by (cases r) auto
next
  case (Cons ev evs)
  then show ?case by auto
qed

lemma count_invokes_snoc: "is_results r \<Longrightarrow> count_invokes (evs @ [r]) = count_invokes evs"
  by (cases r) (auto simp: count_invokes_def)

lemma invoked_names_snoc: "is_results r \<Longrightarrow> invoked_names (evs @ [r]) = invoked_names evs"
  by (induction evs rule: invoked_names.induct) (cases r; auto)+

lemma invoke_loop_no_results_yielded:
  "filter is_results (yields (fst (invoke_loop E tools tm fs results fr n))) = []"
proof -
  have "\<not> is_results ev" if "is_invoke ev \<or> is_outcome ev" for ev
    using that by (cases ev) auto
  then show ?thesis
    using invoke_loop_yields by (fastforce simp: filter_empty_conv)
qed

text \<open>What the round yields to the iterator, in the two ways the outer loop can end.\<close>

lemma round_events_cases:
  "round_events E tools tm fs n
      = until_error (yields (fst (invoke_loop E tools tm fs Map.empty results_open n)))
   \<or> (\<exists>r x. is_results r
        \<and> fst (snd (invoke_loop E tools tm fs Map.empty results_open n)) = Inr x
        \<and> \<not> list_ex is_error (yields (fst (invoke_loop E tools tm fs Map.empty results_open n)))
        \<and> round_events E tools tm fs n
            = yields (fst (invoke_loop E tools tm fs Map.empty results_open n)) @ [r])"
proof -
  let ?L = "invoke_loop E tools tm fs Map.empty results_open n"
  show ?thesis
  proof (cases "fst (snd ?L)")
    case (Inl e)
    then show ?thesis
      by (simp add: round_events_def invokeFunctions_def split_def yields_driven)
  next
    case (Inr x)
    show ?thesis
    proof (cases "list_ex is_error (yields (fst ?L))")
      case True
      then show ?thesis
        using Inr
        by (simp add: round_events_def invokeFunctions_def split_def yields_driven yields_append
            until_error_append)
    next
      case False
      then have "\<exists>r. is_results r \<and> round_events E tools tm fs n = yields (fst ?L) @ [r]"
        using Inr
        by (simp add: round_events_def invokeFunctions_def split_def yields_driven yields_append
            until_error_append)
      with Inr False show ?thesis by blast
    qed
  qed
qed

text \<open>
  While the iterator of \<^verbatim>\<open>stream\<close> drives a round, the round yields at most one
  \<^verbatim>\<open>tool_invoke\<close> for each parsed invocation, in the order of the invocations; a
  \<^verbatim>\<open>tool_result\<close> or \<^verbatim>\<open>tool_error\<close> only answers a \<^verbatim>\<open>tool_invoke\<close>, and at most
  one does before the next \<^verbatim>\<open>tool_invoke\<close>; and when the round gets to its
  \<^verbatim>\<open>tool_results\<close> event, there is one \<^verbatim>\<open>tool_invoke\<close> for each invocation.
\<close>

lemma round_event_discipline:
  "at_most_one_outcome False (round_events E tools tm fs n)
   \<and> count_invokes (round_events E tools tm fs n) \<le> length fs
   \<and> invoked_names (round_events E tools tm fs n)
       = take (count_invokes (round_events E tools tm fs n)) (map fc_tool_name fs)
   \<and> (filter is_results (round_events E tools tm fs n) \<noteq> [] \<longrightarrow>
        count_invokes (round_events E tools tm fs n) = length fs)"
proof -
  let ?L = "invoke_loop E tools tm fs Map.empty results_open n"
  let ?evs = "yields (fst ?L)"
  have cnt: "count_invokes ?evs \<le> length fs"
    and full: "\<And>x. fst (snd ?L) = Inr x \<Longrightarrow> count_invokes ?evs = length fs"
    using invoke_loop_count[of E tools tm fs Map.empty results_open n] by auto
  have ord: "take (count_invokes ?evs) (map fc_tool_name fs) = invoked_names ?evs"
    by (rule invoke_loop_order)
  have none: "filter is_results ?evs = []"
    by (rule invoke_loop_no_results_yielded)
  from round_events_cases[of E tools tm fs n] show ?thesis
  proof
    assume cut: "round_events E tools tm fs n = until_error ?evs"
    have le: "count_invokes (until_error ?evs) \<le> count_invokes ?evs"
      by (rule count_invokes_until_error)
    have "invoked_names (until_error ?evs)
        = take (count_invokes (until_error ?evs)) (take (count_invokes ?evs) (map fc_tool_name fs))"
      using invoked_until[of ?evs] ord by simp
    also have "\<dots> = take (count_invokes (until_error ?evs)) (map fc_tool_name fs)"
      using le by (simp add: min_def)
    finally have o: "invoked_names (until_error ?evs)
        = take (count_invokes (until_error ?evs)) (map fc_tool_name fs)" .
    have "filter is_results (until_error ?evs) = []"
      using none set_until_error[of ?evs] by (fastforce simp: filter_empty_conv)
    then show ?thesis
      unfolding cut using invoke_loop_discipline[of E tools tm fs Map.empty results_open n] le cnt o
      by simp
  next
    assume "\<exists>r x. is_results r \<and> fst (snd ?L) = Inr x
        \<and> \<not> list_ex is_error ?evs
        \<and> round_events E tools tm fs n = ?evs @ [r]"
    then obtain r x where r: "is_results r" and x: "fst (snd ?L) = Inr x"
      and noerr: "\<not> list_ex is_error ?evs"
      and all: "round_events E tools tm fs n = ?evs @ [r]"
      by blast
    have "at_most_one_outcome False ?evs"
      using invoke_loop_discipline[of E tools tm fs Map.empty results_open n] noerr
      by (simp add: until_error_id)
    then show ?thesis
      unfolding all using r full[OF x] ord
      by (simp add: at_most_one_snoc count_invokes_snoc invoked_names_snoc length_invoked)
  qed
qed

text \<open>Unfolding the definitions on the example configurations.\<close>

lemmas ex_defs = ex_env_def env_for_def ex_body_def lookup_tool_def failing_tool_def
  silent_tool_def mk_tool_def invoke_js_def invoke_fields_def invoke_text_def text_lines_def
  json_string_def json_char_def resolver_request_def

lemmas run_defs = iterate_def stream_def tool_round_def extractFunctionCalls_def
  invokeFunctions_def invokeFunction_def sendFinalResponse_def calls_to_records_def
  call_record_def ebind_def find_tool_def set_idx_def get_idx_def ext_count_def
  tools_of_def tools_model_of_def start_marker_def startsWith_def empty_obj_def Let_def

text \<open>
  Inside the round an invocation whose tool resolves with \<^verbatim>\<open>undefined\<close> is announced
  and gets no outcome.
\<close>

lemma silent_invocation_has_no_outcome:
  "extractFunctionCalls (ex_env ''silent'') (invoke_text ''silent'')
     = Inr [\<lparr>fc_tool_name = JStr ''silent'', fc_context = JStr ''go''\<rparr>]
   \<and> count_invokes (round_events (ex_env ''silent'') [silent_tool] ''m''
        [\<lparr>fc_tool_name = JStr ''silent'', fc_context = JStr ''go''\<rparr>] 1) = 1
   \<and> filter is_outcome (round_events (ex_env ''silent'') [silent_tool] ''m''
        [\<lparr>fc_tool_name = JStr ''silent'', fc_context = JStr ''go''\<rparr>] 1) = []"
  by (simp add: run_defs ex_defs round_events_def count_invokes_def)

section \<open>What the consumer of the stream receives\<close>

text \<open>
  The loop of the iterator over the round has a branch for \<^verbatim>\<open>tool_error\<close>, for
  \<^verbatim>\<open>tool_result\<close> and for \<^verbatim>\<open>tool_results\<close>, and none for \<^verbatim>\<open>tool_invoke\<close>: whatever
  the provider, the tools and the reply, no iteration hands a \<^verbatim>\<open>tool_invoke\<close> event
  to the consumer.
\<close>

lemma emitted_append: "emitted (as @ bs) = emitted as @ emitted bs"
  by (induction as rule: emitted.induct) auto

lemma emitted_provider: "emitted (map (\<lambda>ch. Emit (Provider ch)) chs) = map Provider chs"
  by (induction chs) auto

lemma no_invoke_provider: "filter is_invoke (map Provider chs) = []"
  by (induction chs) auto

lemma forward_no_invoke:
  "(\<And>a. Act a \<in> set ss \<Longrightarrow> is_external a) \<Longrightarrow>
     filter is_invoke (emitted (fst (forward ss))) = []"
proof (induction ss rule: forward.induct)
  case (2 a ss)
  from 2 have "is_external a" by simp
  with 2 show ?case by (cases a) (auto simp: split_def)
qed (auto simp: split_def)

lemma invokeFunctions_acts:
  "Act a \<in> set (fst (invokeFunctions E tools tm fs n)) \<Longrightarrow> is_external a"
  using invoke_loop_acts[of a E tools tm fs Map.empty results_open n]
  by (auto simp: invokeFunctions_def split_def split: sum.splits)

lemma tool_round_no_invoke:
  "filter is_invoke (emitted (fst (tool_round E s reply n))) = []"
  using forward_no_invoke[OF invokeFunctions_acts]
  by (auto simp: tool_round_def split_def sendFinalResponse_def emitted_append emitted_provider
      no_invoke_provider split: sum.splits)

lemma iterate_no_invoke:
  "filter is_invoke (emitted (fst (snd (iterate E s n)))) = []"
  using tool_round_no_invoke
  by (auto simp: iterate_def Let_def split_def emitted_append emitted_provider
      no_invoke_provider split: option.splits)

text \<open>
  Claim C1. The consumer is to see one \<^verbatim>\<open>tool_invoke\<close> for each parsed invocation,
  each followed by exactly one \<^verbatim>\<open>tool_result\<close> or \<^verbatim>\<open>tool_error\<close>. On a streamed
  call whose reply asks for one registered tool, which resolves with a value, one
  invocation is parsed and the round yields \<^verbatim>\<open>tool_invoke\<close>, \<^verbatim>\<open>tool_result\<close> and
  \<^verbatim>\<open>tool_results\<close>; the consumer receives the \<^verbatim>\<open>tool_result\<close> and the
  \<^verbatim>\<open>tool_results\<close> between the provider's events and no \<^verbatim>\<open>tool_invoke\<close>, so the
  result it sees answers no invocation.
\<close>

theorem consumer_receives_no_tool_invoke:
  "extractFunctionCalls (ex_env ''lookup'') (invoke_text ''lookup'')
     = Inr [\<lparr>fc_tool_name = JStr ''lookup'', fc_context = JStr ''go''\<rparr>]
   \<and> yields (fst (invokeFunctions (ex_env ''lookup'') [lookup_tool] ''m''
        [\<lparr>fc_tool_name = JStr ''lookup'', fc_context = JStr ''go''\<rparr>] 1))
     = [ToolInvoke lookup_tool,
        ToolResult lookup_tool (JStr ''found''),
        ToolResults (tools_by_name [lookup_tool]) (Map.empty(''lookup'' \<mapsto> JStr ''found''))
          [\<lparr>role = User,
            content = Str (results_open
              @ result_fragment (ex_env ''lookup'') ''lookup'' (JStr ''found'')
              @ ''</function_results>'')\<rparr>]]
   \<and> fst (iterate (ex_env ''lookup'') (fst (stream (ex_env ''lookup'') (ex_body [lookup_tool]) 0)) 1)
     = None
   \<and> emitted (fst (snd (iterate (ex_env ''lookup'')
         (fst (stream (ex_env ''lookup'') (ex_body [lookup_tool]) 0)) 1)))
      = [Provider (ContentBlockStart 0 (invoke_text ''lookup'')),
         ToolResult lookup_tool (JStr ''found''),
         ToolResults (tools_by_name [lookup_tool]) (Map.empty(''lookup'' \<mapsto> JStr ''found''))
           [\<lparr>role = User,
             content = Str (results_open
               @ result_fragment (ex_env ''lookup'') ''lookup'' (JStr ''found'')
               @ ''</function_results>'')\<rparr>],
         Provider (ContentBlockStart 0 ''Done.'')]
   \<and> count_invokes (emitted (fst (snd (iterate (ex_env ''lookup'')
         (fst (stream (ex_env ''lookup'') (ex_body [lookup_tool]) 0)) 1)))) = 0
   \<and> \<not> exactly_one_outcome False (emitted (fst (snd (iterate (ex_env ''lookup'')
         (fst (stream (ex_env ''lookup'') (ex_body [lookup_tool]) 0)) 1))))
   \<and> \<not> at_most_one_outcome False (emitted (fst (snd (iterate (ex_env ''lookup'')
         (fst (stream (ex_env ''lookup'') (ex_body [lookup_tool]) 0)) 1))))"
  by (simp add: run_defs ex_defs final_request_def content_of_js_def result_fragment_def
      count_invokes_def)

section \<open>The requests of an iteration\<close>

lemma forward_requests:
  "Request r \<in> set (fst (forward ss)) \<Longrightarrow> Act (Request r) \<in> set ss"
  by (induction ss rule: forward.induct) (auto simp: split_def)

lemma invokeFunction_requests:
  "Act (Request r) \<in> set (fst (invokeFunction E t tm ctx n)) \<Longrightarrow> r = resolver_request t tm ctx"
  by (auto simp: invokeFunction_def Let_def split_def split: sum.splits)

lemma invoke_loop_requests:
  "Act (Request r) \<in> set (fst (invoke_loop E tools tm fs results fr n)) \<Longrightarrow>
     \<exists>t ctx. r = resolver_request t tm ctx"
proof (induction fs arbitrary: results fr n)
  case Nil
  then show ?case by simp
next
  case (Cons f fs)
  then show ?case
    by (auto simp: split_def split: option.splits
        dest!: consume_results_acts invokeFunction_requests)
qed

lemma tool_round_requests:
  "Request r \<in> set (fst (tool_round E s reply n)) \<Longrightarrow>
     (\<exists>t ctx. r = resolver_request t (s_tools_model s) ctx)
     \<or> r = final_request (s_body s) (b_messages (s_body s))"
  by (auto simp: tool_round_def invokeFunctions_def sendFinalResponse_def split_def
      split: if_splits sum.splits dest!: forward_requests invoke_loop_requests)

text \<open>
  Every request of an iteration is a request of the parameter resolver, whose only
  message is the context of an invocation, or the continuation request, whose messages
  are the messages of the body: the message with the result block is in neither.
\<close>

lemma iterate_requests:
  assumes "Request r \<in> set (fst (snd (iterate E s n)))"
  shows "\<exists>reply c. Request r
           \<in> set (fst (tool_round E (s\<lparr>s_content := c, consumed := True\<rparr>) reply n))"
proof -
  obtain chs err c where ps: "process_stream (s_stream s) (s_content s) = (chs, err, c)"
    by (cases "process_stream (s_stream s) (s_content s)") auto
  have un: "\<not> consumed s"
    using assms by (auto simp: iterate_def)
  have noreq: "Request r \<notin> set (map (\<lambda>ch. Emit (Provider ch)) chs)"
    by auto
  show ?thesis
  proof (cases err)
    case (Some e)
    then show ?thesis
      using assms un ps by (auto simp: iterate_def Let_def)
  next
    case None
    show ?thesis
    proof (cases "get_idx c 0")
      case n0: None
      then show ?thesis
        using assms un ps None by (auto simp: iterate_def Let_def)
    next
      case (Some reply)
      obtain acts e where tr:
        "tool_round E (s\<lparr>s_content := c, consumed := True\<rparr>) reply n = (acts, e)"
        by (cases "tool_round E (s\<lparr>s_content := c, consumed := True\<rparr>) reply n") auto
      have "Request r \<in> set acts"
        using assms un ps None Some tr by (cases e) (auto simp: iterate_def Let_def)
      then show ?thesis
        using tr by (metis fst_conv)
    qed
  qed
qed

lemma streamed_request_messages:
  "Request r \<in> set (fst (snd (iterate E s n))) \<Longrightarrow>
     (\<exists>ctx. messages r = [\<lparr>role = User, content = content_of_js ctx\<rparr>])
     \<or> messages r = b_messages (s_body s)"
proof -
  assume "Request r \<in> set (fst (snd (iterate E s n)))"
  from iterate_requests[OF this] obtain reply c where
    "Request r \<in> set (fst (tool_round E (s\<lparr>s_content := c, consumed := True\<rparr>) reply n))"
    by blast
  from tool_round_requests[OF this] show ?thesis
    by (auto simp: resolver_request_def final_request_def)
qed

text \<open>
  Claim C4. After a tool has run, the continuation request is to carry the follow-up
  user message with the round's result block, after the existing messages. On a
  streamed call with one tool that resolves with a value, the \<^verbatim>\<open>tool_results\<close> event
  carries that message, and the continuation request is sent with the messages of the
  body alone: \<^verbatim>\<open>sendFinalResponse\<close> is called with \<^verbatim>\<open>body.messages\<close>.
\<close>

theorem continuation_request_omits_results:
  "fst (iterate (ex_env ''lookup'') (fst (stream (ex_env ''lookup'') (ex_body [lookup_tool]) 0)) 1)
     = None
   \<and> emitted (fst (snd (iterate (ex_env ''lookup'')
         (fst (stream (ex_env ''lookup'') (ex_body [lookup_tool]) 0)) 1)))
      = [Provider (ContentBlockStart 0 (invoke_text ''lookup'')),
         ToolResult lookup_tool (JStr ''found''),
         ToolResults (tools_by_name [lookup_tool]) (Map.empty(''lookup'' \<mapsto> JStr ''found''))
           [\<lparr>role = User,
             content = Str (results_open
               @ result_fragment (ex_env ''lookup'') ''lookup'' (JStr ''found'')
               @ ''</function_results>'')\<rparr>],
         Provider (ContentBlockStart 0 ''Done.'')]
   \<and> map messages (requests_of (fst (snd (iterate (ex_env ''lookup'')
         (fst (stream (ex_env ''lookup'') (ex_body [lookup_tool]) 0)) 1))))
      = [[\<lparr>role = User, content = Str ''go''\<rparr>], [\<lparr>role = User, content = Str ''hi''\<rparr>]]"
  by (simp add: run_defs ex_defs final_request_def content_of_js_def result_fragment_def)

section \<open>The first error of a round\<close>

text \<open>
  Buffered mode: when a pass gets through the invocations before one whose parameters
  fail validation, or whose function rejects, the accumulator at the end of the loop is
  the error block alone, and no tool after it is called.
\<close>

lemma buffered_first_error_block:
  assumes "runs_through E c tools pre n" and "find_tool tools (fn_name f) = Some t"
  shows "(\<forall>e. check_parameters c t (fn_parameters f) = Inl e \<longrightarrow>
            run_functions E c tools (pre @ f # post) fr n
              = (fst (run_functions E c tools pre fr n), Inr validation_error_block, n + length pre))
       \<and> (\<forall>d e. check_parameters c t (fn_parameters f) = Inr d \<longrightarrow>
            func t (n + length pre) d = Inl e \<longrightarrow>
            run_functions E c tools (pre @ f # post) fr n
              = (fst (run_functions E c tools pre fr n) @ [CallTool (tool_name t) d],
                 Inr (error_block E c e), Suc (n + length pre)))"
proof -
  from run_functions_through[OF assms(1), of fr] obtain acts fr' where
    pre: "run_functions E c tools pre fr n = (acts, Inr fr', n + length pre)"
    by blast
  show ?thesis
    using assms(2) by (simp add: run_functions_append[OF assms(1)] pre)
qed

text \<open>
  Streamed mode: taken alone, \<^verbatim>\<open>invokeFunctions\<close> leaves only its inner loop on an
  error, so run to its end it goes on to the next invocation; it is the iterator of
  \<^verbatim>\<open>stream\<close> that stops the round, by leaving its own loop at \<^verbatim>\<open>tool_error\<close>.
\<close>

lemma drained_round_runs_past_error:
  "filter is_outcome (yields (fst (invokeFunctions
       (env_for (invoke_text ''failing'') (JArr [invoke_js ''failing'', invoke_js ''lookup'']))
       [lookup_tool, failing_tool] ''m''
       [\<lparr>fc_tool_name = JStr ''failing'', fc_context = JStr ''go''\<rparr>,
        \<lparr>fc_tool_name = JStr ''lookup'', fc_context = JStr ''go''\<rparr>] 1)))
     = [ToolError failing_tool (JStr ''boom''), ToolResult lookup_tool (JStr ''found'')]
   \<and> filter is_outcome (round_events
       (env_for (invoke_text ''failing'') (JArr [invoke_js ''failing'', invoke_js ''lookup'']))
       [lookup_tool, failing_tool] ''m''
       [\<lparr>fc_tool_name = JStr ''failing'', fc_context = JStr ''go''\<rparr>,
        \<lparr>fc_tool_name = JStr ''lookup'', fc_context = JStr ''go''\<rparr>] 1)
     = [ToolError failing_tool (JStr ''boom'')]"
  by (simp add: run_defs ex_defs round_events_def)

text \<open>
  Claim C3. On the first error of a round the result block is to hold the error
  fragment alone, and no later tool of the round is to run. On a streamed call with
  one invocation whose tool rejects, the iterator hands \<^verbatim>\<open>tool_error\<close> to the consumer
  and leaves its loop, which closes the round before the accumulator is reset: no
  \<^verbatim>\<open>tool_results\<close> event is emitted and no request carries a result block, with or
  without the error fragment.
\<close>

theorem streamed_error_leaves_no_result_block:
  "fst (iterate (ex_env ''failing'')
         (fst (stream (ex_env ''failing'') (ex_body [lookup_tool, failing_tool]) 0)) 1) = None
   \<and> emitted (fst (snd (iterate (ex_env ''failing'')
         (fst (stream (ex_env ''failing'') (ex_body [lookup_tool, failing_tool]) 0)) 1)))
      = [Provider (ContentBlockStart 0 (invoke_text ''failing'')),
         ToolError failing_tool (JStr ''boom''),
         Provider (ContentBlockStart 0 ''Done.'')]
   \<and> called_names (fst (snd (iterate (ex_env ''failing'')
         (fst (stream (ex_env ''failing'') (ex_body [lookup_tool, failing_tool]) 0)) 1)))
      = [''failing'']
   \<and> map messages (requests_of (fst (snd (iterate (ex_env ''failing'')
         (fst (stream (ex_env ''failing'') (ex_body [lookup_tool, failing_tool]) 0)) 1))))
      = [[\<lparr>role = User, content = Str ''go''\<rparr>], [\<lparr>role = User, content = Str ''hi''\<rparr>]]"
  by (simp add: run_defs ex_defs final_request_def content_of_js_def result_fragment_def)

section \<open>The accumulated invocations of the buffered loop\<close>

lemma called_names_append: "called_names (as @ bs) = called_names as @ called_names bs"
  by (induction as rule: called_names.induct) auto

lemma run_functions_called_prefix:
  "map JStr (called_names (fst (run_functions E c tools fs fr n)))
     = take (length (called_names (fst (run_functions E c tools fs fr n)))) (map fn_name fs)"
proof (induction fs arbitrary: fr n)
  case Nil
  then show ?case by simp
next
  case (Cons f fs)
  show ?case
  proof (cases "find_tool tools (fn_name f)")
    case None
    then show ?thesis by simp
  next
    case (Some t)
    have name: "fn_name f = JStr (tool_name t)"
      using find_tool_name[OF Some] by simp
    show ?thesis
      using Cons.IH
      by (simp add: Some split_def split: sum.splits) (simp add: name)
  qed
qed

lemma run_functions_called_all:
  "runs_through E c tools fs n \<Longrightarrow>
     map JStr (called_names (fst (run_functions E c tools fs fr n))) = map fn_name fs"
proof (induction fs arbitrary: fr n)
  case Nil
  then show ?case by simp
next
  case (Cons f fs)
  from Cons.prems obtain t d v where
    t: "find_tool tools (fn_name f) = Some t"
    and d: "check_parameters c t (fn_parameters f) = Inr d"
    and v: "func t n d = Inr v"
    and rest: "runs_through E c tools fs (Suc n)"
    by (auto split: option.splits sum.splits)
  have name: "fn_name f = JStr (tool_name t)"
    using find_tool_name[OF t] by simp
  show ?case
    using Cons.IH[OF rest] by (simp add: t d v split_def) (simp add: name)
qed

lemma loop_body_calls:
  "parse_invocations E (l_text st) = Inr new \<Longrightarrow>
     called_names (fst (loop_body E checked tools req st))
       = called_names (fst (run_functions E checked tools (l_functions st @ new) results_open
                              (l_time st)))"
  by (auto simp: loop_body_def Let_def split_def called_names_append
      split: sum.splits option.splits)

lemmas buffered_defs = runWithTools_def buffered_call_def loop_body_def parse_invocations_def
  invokeArray_def invoke_record_def ebind_def find_tool_def check_parameters_def
  assistant_turn_def finish_def wrap_block_def split_second_def template_def
  start_marker_def end_marker_def startsWith_def tools_of_def Let_def

lemmas flaky_defs = flaky_env_def buffered_env_def flaky_replies_def named_in_def
  invoke_params_text_def text_lines_def json_string_def json_char_def flaky_tool_def lookup_tool_def mk_tool_def
  ex_body_def invoke_params_js_def

text \<open>A call enters the loop with an empty array of invocations.\<close>

lemma buffered_call_passes:
  "getTextFromMessage (Blocks (create E n (buffered_request tools b))) = Some reply \<Longrightarrow>
     buffered_call k E checked tools b n
       = map_option (\<lambda>(as, r). (Request (buffered_request tools b) # as, r))
           (turn_loop k E checked tools (buffered_request tools b)
              \<lparr>l_text = reply, l_first = True, l_functions = [],
               l_messages = b_messages b
                 @ [\<lparr>role = Assistant,
                     content = Blocks (create E n (buffered_request tools b))\<rparr>],
               l_response = create E n (buffered_request tools b), l_time = Suc n\<rparr>)"
  by (simp add: buffered_call_def Let_def)

text \<open>
  What a run of the loop does is what its passes do, one after the other; each pass
  hands the array to the next with the invocations it parsed appended, so the array of
  a pass begins with the array of every earlier pass and the invocations parsed there.
\<close>

lemma turn_loop_passes:
  "turn_loop k E c tools req st = Some (acts, r) \<Longrightarrow>
     acts = concat (map (\<lambda>s. fst (loop_body E c tools req s)) (pass_starts k E c tools req st))"
proof (induction k arbitrary: st acts r)
  case 0
  then show ?case by (simp split: if_splits)
next
  case (Suc k)
  show ?case
  proof (cases "includes_str (l_text st) start_marker")
    case False
    with Suc.prems show ?thesis by simp
  next
    case True
    obtain a out where lb: "loop_body E c tools req st = (a, out)"
      by (cases "loop_body E c tools req st") auto
    show ?thesis
    proof (cases out)
      case (Inl e)
      with Suc.prems True lb show ?thesis by simp
    next
      case (Inr fl)
      show ?thesis
      proof (cases fl)
        case (Return x)
        with Suc.prems True lb Inr show ?thesis by simp
      next
        case (Continue st')
        with Suc.prems True lb Inr obtain as where
          tl: "turn_loop k E c tools req st' = Some (as, r)" and acts: "acts = a @ as"
          by (auto split: prod.splits)
        from Suc.IH[OF tl] acts True lb Inr Continue show ?thesis by simp
      qed
    qed
  qed
qed

lemma pass_starts_first:
  "pass_starts k E c tools req st \<noteq> [] \<Longrightarrow> pass_starts k E c tools req st ! 0 = st"
  by (cases k) (auto split: if_splits)

lemma pass_starts_step:
  "Suc j < length (pass_starts k E c tools req st) \<Longrightarrow>
     snd (loop_body E c tools req (pass_starts k E c tools req st ! j))
       = Inr (Continue (pass_starts k E c tools req st ! Suc j))"
proof (induction k arbitrary: st j)
  case 0
  then show ?case by simp
next
  case (Suc k)
  from Suc.prems have inc: "includes_str (l_text st) start_marker"
    by (auto split: if_splits)
  obtain a out where lb: "loop_body E c tools req st = (a, out)"
    by (cases "loop_body E c tools req st") auto
  from Suc.prems inc lb obtain st' where out: "out = Inr (Continue st')"
    by (cases out; simp) (case_tac b; simp)
  have sts: "pass_starts (Suc k) E c tools req st = st # pass_starts k E c tools req st'"
    using inc lb out by simp
  show ?case
  proof (cases j)
    case 0
    from Suc.prems have "pass_starts k E c tools req st' \<noteq> []"
      unfolding sts 0 by auto
    from pass_starts_first[OF this] show ?thesis
      unfolding sts 0 using lb out by simp
  next
    case (Suc j')
    from Suc.prems have "Suc j' < length (pass_starts k E c tools req st')"
      unfolding sts Suc by simp
    from Suc.IH[OF this] show ?thesis
      unfolding sts Suc by simp
  qed
qed

lemma loop_body_continue:
  "snd (loop_body E c tools req st) = Inr (Continue st') \<Longrightarrow>
     \<exists>new. parse_invocations E (l_text st) = Inr new \<and> l_functions st' = l_functions st @ new"
  by (cases "parse_invocations E (l_text st)")
    (auto simp: loop_body_def Let_def split_def split: sum.splits option.splits if_splits)

lemma pass_starts_grow:
  "i < j \<Longrightarrow> j < length (pass_starts k E c tools req st) \<Longrightarrow>
     \<exists>new more. parse_invocations E (l_text (pass_starts k E c tools req st ! i)) = Inr new
       \<and> l_functions (pass_starts k E c tools req st ! j)
           = l_functions (pass_starts k E c tools req st ! i) @ new @ more"
proof (induction j)
  case 0
  then show ?case by simp
next
  case (Suc j)
  let ?sts = "pass_starts k E c tools req st"
  from Suc.prems(2) have step: "snd (loop_body E c tools req (?sts ! j)) = Inr (Continue (?sts ! Suc j))"
    by (rule pass_starts_step)
  from loop_body_continue[OF step] obtain newj where
    nj: "parse_invocations E (l_text (?sts ! j)) = Inr newj"
    and fj: "l_functions (?sts ! Suc j) = l_functions (?sts ! j) @ newj"
    by blast
  show ?case
  proof (cases "i = j")
    case True
    with nj fj show ?thesis by simp
  next
    case False
    with Suc.prems have "i < j" "j < length ?sts" by simp_all
    from Suc.IH[OF this] obtain new more where
      "parse_invocations E (l_text (?sts ! i)) = Inr new"
      "l_functions (?sts ! j) = l_functions (?sts ! i) @ new @ more"
      by blast
    with fj show ?thesis by simp
  qed
qed

text \<open>
  A pass gets through the invocations before the first one that fails, calling their
  tools in order; of the failing one the function is called when the invocation is
  callable (the call rejects), and not when its tool is unknown or its parameters are
  invalid; no invocation after it is called.
\<close>

lemma run_functions_first_failure:
  assumes "runs_through E c tools pre n"
    and "\<not> runs_through E c tools [f] (n + length pre)"
  shows "map JStr (called_names (fst (run_functions E c tools (pre @ f # post) fr n)))
           = map fn_name pre @ (if callable c tools f then [fn_name f] else [])"
proof -
  from run_functions_through[OF assms(1), of fr] obtain acts fr' where
    pre: "run_functions E c tools pre fr n = (acts, Inr fr', n + length pre)"
    by blast
  have names: "map JStr (called_names acts) = map fn_name pre"
    using run_functions_called_all[OF assms(1), of fr] pre by simp
  show ?thesis
  proof (cases "find_tool tools (fn_name f)")
    case None
    then show ?thesis
      by (simp add: run_functions_append[OF assms(1)] pre names callable_def)
  next
    case (Some t)
    have name: "fn_name f = JStr (tool_name t)"
      using find_tool_name[OF Some] by simp
    show ?thesis
    proof (cases "check_parameters c t (fn_parameters f)")
      case (Inl e)
      then show ?thesis
        using Some by (simp add: run_functions_append[OF assms(1)] pre names callable_def)
    next
      case (Inr d)
      with assms(2) Some obtain e where "func t (n + length pre) d = Inl e"
        by (auto split: sum.splits)
      then show ?thesis
        using Some Inr
        by (simp add: run_functions_append[OF assms(1)] pre names callable_def called_names_append name)
    qed
  qed
qed

text \<open>
  Claim C5, as the code has it. Let \<open>sts\<close> be the states in which the passes of the
  turn loop start. What the loop does is what these passes do, in order. The array
  of parsed invocations is never cleared between passes: each pass starts with the
  array of the pass before it followed by the invocations parsed there, so the array
  of a pass begins with the array of any earlier pass and the invocations parsed in
  that pass. A pass goes through its whole array from the start, the invocations of
  earlier passes before the new ones, and calls their tools in that order up to the
  first failure: all of them when every invocation names a registered tool, passes
  validation and resolves; otherwise those before the first invocation that fails,
  and the failing one too when it got as far as its call.
\<close>

theorem accumulated_invocations_rerun:
  assumes "sts = pass_starts k E checked tools req st"
  shows
    "(turn_loop k E checked tools req st \<noteq> None \<longrightarrow>
        map_option fst (turn_loop k E checked tools req st)
          = Some (concat (map (\<lambda>s. fst (loop_body E checked tools req s)) sts)))
     \<and> (Suc j < length sts \<longrightarrow>
          (\<exists>new. parse_invocations E (l_text (sts ! j)) = Inr new
             \<and> l_functions (sts ! Suc j) = l_functions (sts ! j) @ new))
     \<and> (i < j \<and> j < length sts \<longrightarrow>
          (\<exists>new more. parse_invocations E (l_text (sts ! i)) = Inr new
             \<and> l_functions (sts ! j) = l_functions (sts ! i) @ new @ more))
     \<and> (j < length sts \<and> parse_invocations E (l_text (sts ! j)) = Inr new \<longrightarrow>
          (runs_through E checked tools (l_functions (sts ! j) @ new) (l_time (sts ! j)) \<longrightarrow>
             map JStr (called_names (fst (loop_body E checked tools req (sts ! j))))
               = map fn_name (l_functions (sts ! j)) @ map fn_name new)
          \<and> (l_functions (sts ! j) @ new = pre @ f # post
              \<and> runs_through E checked tools pre (l_time (sts ! j))
              \<and> \<not> runs_through E checked tools [f] (l_time (sts ! j) + length pre) \<longrightarrow>
             map JStr (called_names (fst (loop_body E checked tools req (sts ! j))))
               = map fn_name pre @ (if callable checked tools f then [fn_name f] else [])))"
proof -
  have trace: "map_option fst (turn_loop k E checked tools req st)
          = Some (concat (map (\<lambda>s. fst (loop_body E checked tools req s)) sts))"
    if "turn_loop k E checked tools req st \<noteq> None"
  proof -
    from that obtain acts r where tl: "turn_loop k E checked tools req st = Some (acts, r)"
      by (cases "turn_loop k E checked tools req st") auto
    from turn_loop_passes[OF tl] show ?thesis
      by (simp add: tl assms)
  qed
  have step: "\<exists>new. parse_invocations E (l_text (sts ! j)) = Inr new
             \<and> l_functions (sts ! Suc j) = l_functions (sts ! j) @ new"
    if "Suc j < length sts"
    using that loop_body_continue[OF pass_starts_step[of j k E checked tools req st]]
    by (simp add: assms)
  have grow: "\<exists>new more. parse_invocations E (l_text (sts ! i)) = Inr new
             \<and> l_functions (sts ! j) = l_functions (sts ! i) @ new @ more"
    if "i < j \<and> j < length sts"
    using that pass_starts_grow[of i j k E checked tools req st]
    by (simp add: assms)
  have all: "map JStr (called_names (fst (loop_body E checked tools req (sts ! j))))
               = map fn_name (l_functions (sts ! j)) @ map fn_name new"
    if "parse_invocations E (l_text (sts ! j)) = Inr new"
      and "runs_through E checked tools (l_functions (sts ! j) @ new) (l_time (sts ! j))"
    using run_functions_called_all[OF that(2), of results_open]
    by (simp add: loop_body_calls[OF that(1)])
  have upto: "map JStr (called_names (fst (loop_body E checked tools req (sts ! j))))
               = map fn_name pre @ (if callable checked tools f then [fn_name f] else [])"
    if "parse_invocations E (l_text (sts ! j)) = Inr new"
      and "l_functions (sts ! j) @ new = pre @ f # post"
      and "runs_through E checked tools pre (l_time (sts ! j))"
      and "\<not> runs_through E checked tools [f] (l_time (sts ! j) + length pre)"
    using run_functions_first_failure[OF that(3) that(4), of post results_open]
    by (simp add: loop_body_calls[OF that(1)] that(2))
  show ?thesis
    using trace step grow all upto by blast
qed


theorem accumulated_invocations_rerun_witness:
  "runWithTools 4 flaky_env (ex_body [flaky_tool, lookup_tool]) 0
     = map_option (\<lambda>(as, r). (Request (buffered_request [flaky_tool, lookup_tool]
                                   (ex_body [flaky_tool, lookup_tool])) # as, r))
         (turn_loop 4 flaky_env True [flaky_tool, lookup_tool]
            (buffered_request [flaky_tool, lookup_tool] (ex_body [flaky_tool, lookup_tool]))
            \<lparr>l_text = invoke_params_text ''flaky'', l_first = True, l_functions = [],
             l_messages = [\<lparr>role = User, content = Str ''hi''\<rparr>,
                           \<lparr>role = Assistant,
                            content = Blocks [TextBlock (invoke_params_text ''flaky'')]\<rparr>],
             l_response = [TextBlock (invoke_params_text ''flaky'')], l_time = Suc 0\<rparr>)
   \<and> map_option (called_names \<circ> fst)
        (turn_loop 4 flaky_env True [flaky_tool, lookup_tool]
            (buffered_request [flaky_tool, lookup_tool] (ex_body [flaky_tool, lookup_tool]))
            \<lparr>l_text = invoke_params_text ''flaky'', l_first = True, l_functions = [],
             l_messages = [\<lparr>role = User, content = Str ''hi''\<rparr>,
                           \<lparr>role = Assistant,
                            content = Blocks [TextBlock (invoke_params_text ''flaky'')]\<rparr>],
             l_response = [TextBlock (invoke_params_text ''flaky'')], l_time = Suc 0\<rparr>)
       = Some (concat (map (\<lambda>s. called_names (fst (loop_body flaky_env True [flaky_tool, lookup_tool]
            (buffered_request [flaky_tool, lookup_tool] (ex_body [flaky_tool, lookup_tool])) s)))
           (pass_starts 4 flaky_env True [flaky_tool, lookup_tool]
            (buffered_request [flaky_tool, lookup_tool] (ex_body [flaky_tool, lookup_tool]))
            \<lparr>l_text = invoke_params_text ''flaky'', l_first = True, l_functions = [],
             l_messages = [\<lparr>role = User, content = Str ''hi''\<rparr>,
                           \<lparr>role = Assistant,
                            content = Blocks [TextBlock (invoke_params_text ''flaky'')]\<rparr>],
             l_response = [TextBlock (invoke_params_text ''flaky'')], l_time = Suc 0\<rparr>)))
   \<and> map l_functions
        (pass_starts 4 flaky_env True [flaky_tool, lookup_tool]
            (buffered_request [flaky_tool, lookup_tool] (ex_body [flaky_tool, lookup_tool]))
            \<lparr>l_text = invoke_params_text ''flaky'', l_first = True, l_functions = [],
             l_messages = [\<lparr>role = User, content = Str ''hi''\<rparr>,
                           \<lparr>role = Assistant,
                            content = Blocks [TextBlock (invoke_params_text ''flaky'')]\<rparr>],
             l_response = [TextBlock (invoke_params_text ''flaky'')], l_time = Suc 0\<rparr>)
       = [[],
          [\<lparr>fn_name = JStr ''flaky'', fn_parameters = JObj [(''q'', JStr ''x'')]\<rparr>],
          [\<lparr>fn_name = JStr ''flaky'', fn_parameters = JObj [(''q'', JStr ''x'')]\<rparr>,
           \<lparr>fn_name = JStr ''lookup'', fn_parameters = JObj [(''q'', JStr ''x'')]\<rparr>]]
   \<and> map (\<lambda>s. map JStr (called_names (fst (loop_body flaky_env True [flaky_tool, lookup_tool]
            (buffered_request [flaky_tool, lookup_tool] (ex_body [flaky_tool, lookup_tool])) s))))
        (pass_starts 4 flaky_env True [flaky_tool, lookup_tool]
            (buffered_request [flaky_tool, lookup_tool] (ex_body [flaky_tool, lookup_tool]))
            \<lparr>l_text = invoke_params_text ''flaky'', l_first = True, l_functions = [],
             l_messages = [\<lparr>role = User, content = Str ''hi''\<rparr>,
                           \<lparr>role = Assistant,
                            content = Blocks [TextBlock (invoke_params_text ''flaky'')]\<rparr>],
             l_response = [TextBlock (invoke_params_text ''flaky'')], l_time = Suc 0\<rparr>)
       = [[JStr ''flaky''], [JStr ''flaky'', JStr ''lookup''], [JStr ''flaky'']]
   \<and> runs_through flaky_env True [flaky_tool, lookup_tool]
        [\<lparr>fn_name = JStr ''flaky'', fn_parameters = JObj [(''q'', JStr ''x'')]\<rparr>,
         \<lparr>fn_name = JStr ''lookup'', fn_parameters = JObj [(''q'', JStr ''x'')]\<rparr>] 3
   \<and> \<not> runs_through flaky_env True [flaky_tool, lookup_tool]
        [\<lparr>fn_name = JStr ''flaky'', fn_parameters = JObj [(''q'', JStr ''x'')]\<rparr>] 6
   \<and> callable True [flaky_tool, lookup_tool]
        \<lparr>fn_name = JStr ''flaky'', fn_parameters = JObj [(''q'', JStr ''x'')]\<rparr>"
proof -
  let ?tools = "[flaky_tool, lookup_tool]"
  let ?req = "buffered_request ?tools (ex_body ?tools)"
  let ?st = "\<lparr>l_text = invoke_params_text ''flaky'', l_first = True, l_functions = [],
             l_messages = [\<lparr>role = User, content = Str ''hi''\<rparr>,
                           \<lparr>role = Assistant,
                            content = Blocks [TextBlock (invoke_params_text ''flaky'')]\<rparr>],
             l_response = [TextBlock (invoke_params_text ''flaky'')], l_time = Suc 0\<rparr>"
  let ?sts = "pass_starts 4 flaky_env True ?tools ?req ?st"
  let ?F = "\<lparr>fn_name = JStr ''flaky'', fn_parameters = JObj [(''q'', JStr ''x'')]\<rparr>"
  let ?L = "\<lparr>fn_name = JStr ''lookup'', fn_parameters = JObj [(''q'', JStr ''x'')]\<rparr>"
  have ev: "\<exists>s1 s2. [?st, s1, s2] = ?sts
      \<and> l_functions s1 = [?F] \<and> l_time s1 = 3 \<and> l_text s1 = invoke_params_text ''lookup''
      \<and> l_functions s2 = [?F, ?L] \<and> l_time s2 = 6 \<and> l_text s2 = invoke_params_text ''lookup''"
    by (simp add: buffered_defs flaky_defs eval_nat_numeral)
  then obtain s1 s2 where sts: "[?st, s1, s2] = ?sts"
    and s1: "l_functions s1 = [?F]" "l_time s1 = 3" "l_text s1 = invoke_params_text ''lookup''"
    and s2: "l_functions s2 = [?F, ?L]" "l_time s2 = 6" "l_text s2 = invoke_params_text ''lookup''"
    by blast
  note T = accumulated_invocations_rerun[OF sts]
  have pF: "parse_invocations flaky_env (invoke_params_text ''flaky'') = Inr [?F]"
    and pL: "parse_invocations flaky_env (invoke_params_text ''lookup'') = Inr [?L]"
    by (simp_all add: buffered_defs flaky_defs)
  have call: "runWithTools 4 flaky_env (ex_body ?tools) 0
     = map_option (\<lambda>(as, r). (Request ?req # as, r)) (turn_loop 4 flaky_env True ?tools ?req ?st)"
    by (simp add: runWithTools_def buffered_call_def Let_def tools_of_def ex_body_def
        flaky_env_def buffered_env_def flaky_replies_def invoke_params_text_def text_lines_def)
  have ended: "turn_loop 4 flaky_env True ?tools ?req ?st \<noteq> None"
    by (simp add: buffered_defs flaky_defs eval_nat_numeral)
  have r0: "runs_through flaky_env True ?tools [?F] (Suc 0)"
    and r1: "runs_through flaky_env True ?tools [?F, ?L] 3"
    and r2: "\<not> runs_through flaky_env True ?tools [?F] 6"
    and cf: "callable True ?tools ?F"
    by (simp_all add: callable_def find_tool_def check_parameters_def flaky_defs)
  have trace: "map_option fst (turn_loop 4 flaky_env True ?tools ?req ?st)
      = Some (concat (map (\<lambda>s. fst (loop_body flaky_env True ?tools ?req s)) [?st, s1, s2]))"
    using T[THEN conjunct1, THEN mp, OF ended] .
  have names: "map_option (called_names \<circ> fst) (turn_loop 4 flaky_env True ?tools ?req ?st)
      = Some (concat (map (\<lambda>s. called_names (fst (loop_body flaky_env True ?tools ?req s)))
                [?st, s1, s2]))"
  proof -
    have "map_option (called_names \<circ> fst) (turn_loop 4 flaky_env True ?tools ?req ?st)
        = map_option called_names (map_option fst (turn_loop 4 flaky_env True ?tools ?req ?st))"
      by (simp add: option.map_comp)
    then show ?thesis
      unfolding trace by (simp add: called_names_append)
  qed
  have h0: "0 < length [?st, s1, s2]
      \<and> parse_invocations flaky_env (l_text ([?st, s1, s2] ! 0)) = Inr [?F]"
    using pF by simp
  have g0: "runs_through flaky_env True ?tools (l_functions ([?st, s1, s2] ! 0) @ [?F])
      (l_time ([?st, s1, s2] ! 0))"
    using r0 by simp
  have p0: "map JStr (called_names (fst (loop_body flaky_env True ?tools ?req ?st))) = [JStr ''flaky'']"
    using T[where j = 0 and new = "[?F]", THEN conjunct2, THEN conjunct2, THEN conjunct2,
        THEN mp, OF h0, THEN conjunct1, THEN mp, OF g0]
    by simp
  have h1: "1 < length [?st, s1, s2]
      \<and> parse_invocations flaky_env (l_text ([?st, s1, s2] ! 1)) = Inr [?L]"
    using pL s1 by simp
  have g1: "runs_through flaky_env True ?tools (l_functions ([?st, s1, s2] ! 1) @ [?L])
      (l_time ([?st, s1, s2] ! 1))"
    using r1 s1 by simp
  have p1: "map JStr (called_names (fst (loop_body flaky_env True ?tools ?req s1)))
      = [JStr ''flaky'', JStr ''lookup'']"
    using T[where j = 1 and new = "[?L]", THEN conjunct2, THEN conjunct2, THEN conjunct2,
        THEN mp, OF h1, THEN conjunct1, THEN mp, OF g1] s1
    by simp
  have h2: "2 < length [?st, s1, s2]
      \<and> parse_invocations flaky_env (l_text ([?st, s1, s2] ! 2)) = Inr [?L]"
    using pL s2 by simp
  have g2: "l_functions ([?st, s1, s2] ! 2) @ [?L] = [] @ ?F # [?L, ?L]
      \<and> runs_through flaky_env True ?tools [] (l_time ([?st, s1, s2] ! 2))
      \<and> \<not> runs_through flaky_env True ?tools [?F]
            (l_time ([?st, s1, s2] ! 2) + length ([] :: fn_call list))"
    using r2 s2 by simp
  have p2: "map JStr (called_names (fst (loop_body flaky_env True ?tools ?req s2))) = [JStr ''flaky'']"
    using T[where j = 2 and new = "[?L]" and pre = "[]" and f = ?F and post = "[?L, ?L]",
        THEN conjunct2, THEN conjunct2, THEN conjunct2,
        THEN mp, OF h2, THEN conjunct2, THEN mp, OF g2] cf
    by simp
  show ?thesis
    unfolding sts[symmetric] using call names s1 s2 p0 p1 p2 r1 r2 cf by simp
qed

text \<open>
  As the claim states it, every tool called in a pass is called again in every later
  pass of the same call. That fails in a call of three passes where the tool of the
  first pass rejects when it is called in the third: the tool invoked in the second
  pass is not called again in the third.
\<close>

theorem later_pass_skips_earlier_invocation:
  "round_calls (runWithTools 4 flaky_env (ex_body [flaky_tool, lookup_tool]) 0)
     = [[], [''flaky''], [''flaky'', ''lookup''], [''flaky'']]
   \<and> \<not> reruns_all (round_calls (runWithTools 4 flaky_env (ex_body [flaky_tool, lookup_tool]) 0))"
proof -
  have "round_calls (runWithTools 4 flaky_env (ex_body [flaky_tool, lookup_tool]) 0)
     = [[], [''flaky''], [''flaky'', ''lookup''], [''flaky'']]"
    by (simp add: buffered_defs flaky_defs eval_nat_numeral)
  then show ?thesis by simp
qed

end
